theory Spec2Isabelle
  imports Main "HOL-Library.Word"
begin

unbundle bit_operations_syntax

section \<open>Bytes, slices and the builtin copy\<close>

text \<open>
  A Go \<open>[]byte\<close> is modelled by its backing array (whose length is the capacity) and its
  length; every slice of the program starts at offset 0 of its array. The bytes a reader
  of the slice sees are the first \<open>len\<close> bytes of the array.
\<close>

abbreviation NL :: char where
  "NL \<equiv> CHR 0x0A"

record slice =
  arr :: "char list"
  len :: nat

definition view :: "slice \<Rightarrow> char list" where
  "view s = take (len s) (arr s)"

definition cap :: "slice \<Rightarrow> nat" where
  "cap s = length (arr s)"

text \<open>\<open>make([]byte, l, c)\<close>: a zeroed array of \<open>c\<close> bytes seen through a slice of length \<open>l\<close>.\<close>

definition make_bytes :: "nat \<Rightarrow> nat \<Rightarrow> slice" where
  "make_bytes l c = \<lparr>arr = replicate c (CHR 0x00), len = l\<rparr>"

text \<open>
  \<open>copy(dst, src)\<close> copies \<open>min(len(dst), len(src))\<close> bytes and returns that number; it
  never lengthens \<open>dst\<close>.
\<close>

definition go_copy :: "slice \<Rightarrow> char list \<Rightarrow> slice \<times> nat" where
  "go_copy dst src =
     (let k = min (len dst) (length src)
      in (dst\<lparr>arr := take k src @ drop k (arr dst)\<rparr>, k))"

datatype panic = IndexOutOfRange int | SliceBoundsOutOfRange nat

text \<open>\<open>xs[i]\<close> with Go's bounds check.\<close>

definition index :: "char list \<Rightarrow> int \<Rightarrow> panic + char" where
  "index xs i = (if 0 \<le> i \<and> i < int (length xs) then Inr (xs ! nat i) else Inl (IndexOutOfRange i))"

text \<open>\<open>s[0:n]\<close> with Go's bounds check against the capacity.\<close>

definition reslice :: "slice \<Rightarrow> nat \<Rightarrow> panic + slice" where
  "reslice s n = (if n \<le> cap s then Inr (s\<lparr>len := n\<rparr>) else Inl (SliceBoundsOutOfRange n))"

section \<open>Buffer pool\<close>

text \<open>
  \<open>BufferPool\<close> is a \<open>sync.Pool\<close>. \<open>Put\<close> adds a buffer. \<open>Get\<close> hands out one of the
  pooled buffers, as it was put, or calls \<open>New\<close>; which of the two, and which buffer, is
  up to the pool, which may also drop buffers it holds. These choices are part of the
  pool's state: \<open>picks\<close> lists, for the coming calls of \<open>Get\<close>, the position of the
  pooled buffer to hand out, and a position beyond the pool stands for a call where the
  pool uses none of its buffers (it dropped them, or ignores them) and calls \<open>New\<close>.
  When no choice is listed, \<open>Get\<close> hands out the buffer put last, and calls \<open>New\<close> when
  the pool is empty. In \<open>main.go\<close> \<open>New\<close> also counts the allocation in
  \<open>BuffersAllocated\<close>; the other file has no such counter and leaves the field alone.
\<close>

record pool =
  items :: "slice list"
  BuffersAllocated :: nat
  picks :: "nat list"

definition BufferPool :: pool where
  "BufferPool = \<lparr>items = [], BuffersAllocated = 0, picks = []\<rparr>"

definition pick :: "pool \<Rightarrow> nat option" where
  "pick p =
     (case picks p of
        [] \<Rightarrow> (if items p = [] then None else Some 0)
      | k # ks \<Rightarrow> (if k < length (items p) then Some k else None))"

definition New_main :: "nat \<Rightarrow> pool \<Rightarrow> slice \<times> pool" where
  "New_main BUFFER_SIZE p = (make_bytes 0 BUFFER_SIZE, p\<lparr>BuffersAllocated := BuffersAllocated p + 1\<rparr>)"

definition New_part :: "nat \<Rightarrow> pool \<Rightarrow> slice \<times> pool" where
  "New_part BUFFER_SIZE p = (make_bytes 0 BUFFER_SIZE, p)"

definition Get_main :: "nat \<Rightarrow> pool \<Rightarrow> slice \<times> pool" where
  "Get_main BUFFER_SIZE p =
     (case pick p of
        None \<Rightarrow> New_main BUFFER_SIZE (p\<lparr>picks := tl (picks p)\<rparr>)
      | Some k \<Rightarrow>
          (items p ! k,
           p\<lparr>items := take k (items p) @ drop (Suc k) (items p), picks := tl (picks p)\<rparr>))"

definition Get_part :: "nat \<Rightarrow> pool \<Rightarrow> slice \<times> pool" where
  "Get_part BUFFER_SIZE p =
     (case pick p of
        None \<Rightarrow> New_part BUFFER_SIZE (p\<lparr>picks := tl (picks p)\<rparr>)
      | Some k \<Rightarrow>
          (items p ! k,
           p\<lparr>items := take k (items p) @ drop (Suc k) (items p), picks := tl (picks p)\<rparr>))"

definition Put :: "slice \<Rightarrow> pool \<Rightarrow> pool" where
  "Put x p = p\<lparr>items := x # items p\<rparr>"

section \<open>The input file\<close>

text \<open>
  \<open>os.Open\<close> succeeds on a regular file and on a directory. A regular file is its
  content from the current offset on; \<open>Read\<close> into a slice of length \<open>l\<close> delivers up to
  \<open>l\<close> bytes, reports \<open>io.EOF\<close> with no bytes at the end, and nothing with a nil error
  when \<open>l = 0\<close>. Reading a directory fails with no bytes and an error that is not
  \<open>io.EOF\<close>.
\<close>

datatype os_file = Regular "char list" | Directory

datatype io_error = no_error | io_EOF | EISDIR

fun file_Read :: "os_file \<Rightarrow> nat \<Rightarrow> (char list \<times> io_error) \<times> os_file" where
  "file_Read f 0 = (([], no_error), f)"
| "file_Read (Regular rest) (Suc l) =
     (if rest = [] then (([], io_EOF), Regular rest)
      else ((take (Suc l) rest, no_error), Regular (drop (Suc l) rest)))"
| "file_Read Directory (Suc l) = (([], EISDIR), Directory)"

fun file_size :: "os_file \<Rightarrow> nat" where
  "file_size (Regular rest) = length rest"
| "file_size Directory = 0"

section \<open>Chunk reader\<close>

record reader =
  buffer :: "char list"
  fragment :: slice
  fragLength :: nat

datatype step = Break pool | Panicked panic | Emitted slice reader os_file pool

text \<open>\<open>for i := n - 1; i >= 0; i-- { if buffer[i] == '\n' { ...; break } }\<close>: the index found.\<close>

fun find_newline :: "char list \<Rightarrow> nat \<Rightarrow> nat option" where
  "find_newline buf 0 = None"
| "find_newline buf (Suc i) = (if buf ! i = NL then Some i else find_newline buf i)"

text \<open>The fragment is prepended to the clone when it holds bytes (both files).\<close>

definition prepend_fragment :: "slice \<Rightarrow> reader \<Rightarrow> slice \<times> reader" where
  "prepend_fragment clone r =
     (if len (fragment r) > 0
      then (let (c, k) = go_copy clone (view (fragment r))
            in (c, r\<lparr>fragLength := k, fragment := (fragment r)\<lparr>len := 0\<rparr>\<rparr>))
      else (clone, r))"

text \<open>
  \<open>filePtr.Read(buffer[fragLength:])\<close>: the bytes delivered land in the buffer from
  index \<open>fragLength\<close> on; the rest of the buffer keeps what it held.
\<close>

definition read_into :: "reader \<Rightarrow> os_file \<Rightarrow> panic + (nat \<times> io_error \<times> char list \<times> os_file)" where
  "read_into r f =
     (if fragLength r > length (buffer r) then Inl (SliceBoundsOutOfRange (fragLength r))
      else (let ((data, err), f1) = file_Read f (length (buffer r) - fragLength r);
                n = length data
            in Inr (n, err, take (fragLength r) (buffer r) @ data @ drop (fragLength r + n) (buffer r), f1)))"

text \<open>
  The backward scan over a partial line: the tail from the last newline on is copied
  into the fragment and \<open>n\<close> becomes the index of that newline.
\<close>

definition cut_partial :: "char list \<Rightarrow> nat \<Rightarrow> slice \<Rightarrow> nat \<times> slice" where
  "cut_partial buf n frag =
     (case find_newline buf n of
        Some i \<Rightarrow> (i, fst (go_copy frag (drop i buf)))
      | None \<Rightarrow> (n, frag))"

text \<open>
  What one iteration does with the result \<open>(n, err)\<close> of the read, \<open>buf\<close> being the buffer
  after it. \<open>main.go\<close> tests \<open>buffer[n-1]\<close> and copies into the clone as it is.
\<close>

definition after_read_main ::
    "slice \<Rightarrow> reader \<Rightarrow> nat \<times> io_error \<times> char list \<times> os_file \<Rightarrow> pool \<Rightarrow> step" where
  "after_read_main clone r rd p =
     (case rd of (n, err, buf, f1) \<Rightarrow>
        if err = io_EOF then Break p
        else (case index buf (int n - 1) of
                Inl e \<Rightarrow> Panicked e
              | Inr c \<Rightarrow>
                  (let (n1, frag1) = (if c \<noteq> NL then cut_partial buf n (fragment r)
                                      else (n, fragment r))
                   in Emitted (fst (go_copy clone (take n1 buf)))
                        (r\<lparr>buffer := buf, fragment := frag1\<rparr>) f1 p)))"

text \<open>The other file tests \<open>buffer[(fragLength+n)-1]\<close> and reslices the clone to \<open>[0:n]\<close>.\<close>

definition after_read_part ::
    "slice \<Rightarrow> reader \<Rightarrow> nat \<times> io_error \<times> char list \<times> os_file \<Rightarrow> pool \<Rightarrow> step" where
  "after_read_part clone r rd p =
     (case rd of (n, err, buf, f1) \<Rightarrow>
        if err = io_EOF then Break p
        else (case index buf (int (fragLength r) + int n - 1) of
                Inl e \<Rightarrow> Panicked e
              | Inr c \<Rightarrow>
                  (let (n1, frag1) = (if c \<noteq> NL then cut_partial buf n (fragment r)
                                      else (n, fragment r))
                   in case reslice clone n1 of
                        Inl e \<Rightarrow> Panicked e
                      | Inr clone1 \<Rightarrow>
                          Emitted (fst (go_copy clone1 (take n1 buf)))
                            (r\<lparr>buffer := buf, fragment := frag1\<rparr>) f1 p)))"

text \<open>One iteration: \<open>main.go\<close> takes \<open>BufferPool.Get().([]byte)[0:0]\<close>, the other file the buffer as it comes.\<close>

definition iter_main :: "nat \<Rightarrow> reader \<Rightarrow> os_file \<Rightarrow> pool \<Rightarrow> step" where
  "iter_main BUFFER_SIZE r f p =
     (let (got, p1) = Get_main BUFFER_SIZE p;
          (clone, r1) = prepend_fragment (got\<lparr>len := 0\<rparr>) r
      in case read_into r1 f of
           Inl e \<Rightarrow> Panicked e
         | Inr rd \<Rightarrow> after_read_main clone r1 rd p1)"

definition iter_part :: "nat \<Rightarrow> reader \<Rightarrow> os_file \<Rightarrow> pool \<Rightarrow> step" where
  "iter_part BUFFER_SIZE r f p =
     (let (got, p1) = Get_part BUFFER_SIZE p;
          (clone, r1) = prepend_fragment got r
      in case read_into r1 f of
           Inl e \<Rightarrow> Panicked e
         | Inr rd \<Rightarrow> after_read_part clone r1 rd p1)"

text \<open>
  The loop's outcome: the chunks sent on the channel, in order, and either the channel
  closed at end of file or the program stopped by a panic.
\<close>

datatype outcome = Closed "slice list" pool | Crashed panic "slice list"

function readInFile_loop_main :: "nat \<Rightarrow> reader \<Rightarrow> os_file \<Rightarrow> pool \<Rightarrow> slice list \<Rightarrow> outcome" where
  "readInFile_loop_main BUFFER_SIZE r f p out =
     (case iter_main BUFFER_SIZE r f p of
        Break p1 \<Rightarrow> Closed out p1
      | Panicked e \<Rightarrow> Crashed e out
      | Emitted c r1 f1 p1 \<Rightarrow> readInFile_loop_main BUFFER_SIZE r1 f1 p1 (out @ [c]))"
  by pat_completeness auto
termination
proof (relation "measure (\<lambda>(bs, r, f, p, out). file_size f)")
  show "wf (measure (\<lambda>(bs, r, f, p, out). file_size f))" by simp
next
  fix BUFFER_SIZE :: nat and r f p and out :: "slice list" and c r1 f1 p1
  assume e: "iter_main BUFFER_SIZE r f p = Emitted c r1 f1 p1"
  define r0 where "r0 = snd (prepend_fragment ((fst (Get_main BUFFER_SIZE p))\<lparr>len := 0\<rparr>) r)"
  have "file_size f1 < file_size f"
  proof (cases "length (buffer r0) - fragLength r0")
    case 0
    with e show ?thesis
      by (auto simp: r0_def iter_main_def after_read_main_def read_into_def index_def Let_def
               split: prod.splits sum.splits if_splits)
  next
    case (Suc l)
    with e show ?thesis
      by (cases f)
         (auto simp: r0_def iter_main_def after_read_main_def read_into_def index_def Let_def
               split: prod.splits sum.splits if_splits)
  qed
  then show "((BUFFER_SIZE, r1, f1, p1, out @ [c]), (BUFFER_SIZE, r, f, p, out))
               \<in> measure (\<lambda>(bs, r, f, p, out). file_size f)"
    by simp
qed

declare readInFile_loop_main.simps [simp del]

text \<open>
  In the other file an iteration can send a chunk without consuming input when
  \<open>fragLength\<close> is positive, so its loop is a partial function; that it returns from the
  initial state is proved below.
\<close>

partial_function (option) readInFile_loop_part ::
    "nat \<Rightarrow> reader \<Rightarrow> os_file \<Rightarrow> pool \<Rightarrow> slice list \<Rightarrow> outcome option" where
  "readInFile_loop_part BUFFER_SIZE r f p out =
     (case iter_part BUFFER_SIZE r f p of
        Break p1 \<Rightarrow> Some (Closed out p1)
      | Panicked e \<Rightarrow> Some (Crashed e out)
      | Emitted c r1 f1 p1 \<Rightarrow> readInFile_loop_part BUFFER_SIZE r1 f1 p1 (out @ [c]))"

definition readInFile_main :: "nat \<Rightarrow> os_file \<Rightarrow> pool \<Rightarrow> outcome" where
  "readInFile_main BUFFER_SIZE filePtr p =
     readInFile_loop_main BUFFER_SIZE
       \<lparr>buffer = replicate BUFFER_SIZE (CHR 0x00), fragment = make_bytes 1024 1024, fragLength = 0\<rparr>
       filePtr p []"

definition readInFile_part :: "nat \<Rightarrow> os_file \<Rightarrow> pool \<Rightarrow> outcome option" where
  "readInFile_part BUFFER_SIZE filePtr p =
     readInFile_loop_part BUFFER_SIZE
       \<lparr>buffer = replicate BUFFER_SIZE (CHR 0x00), fragment = make_bytes 0 0, fragLength = 0\<rparr>
       filePtr p []"

definition BUFFER_SIZE_main :: nat where
  "BUFFER_SIZE_main = 512 * 512"

definition BUFFER_SIZE_part :: nat where
  "BUFFER_SIZE_part = 1024 * 512"

section \<open>Line scanner\<close>

text \<open>
  \<open>bufio.NewScanner\<close> splits with \<open>ScanLines\<close>: a token is the text up to the next
  newline without a trailing carriage return, and a final line without newline is a token
  too. The scanner keeps at most \<open>MaxScanTokenSize\<close> bytes of one line: at a line that
  does not fit, \<open>Scan\<close> returns false and the loop ends.
\<close>

definition MaxScanTokenSize :: nat where
  "MaxScanTokenSize = 64 * 1024"

definition dropCR :: "char list \<Rightarrow> char list" where
  "dropCR data = (if data \<noteq> [] \<and> last data = CHR 0x0D then butlast data else data)"

function Scan :: "char list \<Rightarrow> char list list" where
  "Scan data =
     (if data = [] then []
      else (let line = takeWhile (\<lambda>c. c \<noteq> NL) data;
                rest = dropWhile (\<lambda>c. c \<noteq> NL) data
            in if MaxScanTokenSize \<le> length line then []
               else dropCR line # (case rest of [] \<Rightarrow> [] | nl # rest1 \<Rightarrow> Scan rest1)))"
  by pat_completeness auto
termination
proof (relation "measure length")
  show "wf (measure length)" by simp
next
  fix data :: "char list" and line rest nl rest1
  assume a: "rest = dropWhile (\<lambda>c. c \<noteq> NL) data" "rest = nl # rest1"
  from a have "dropWhile (\<lambda>c. c \<noteq> NL) data = nl # rest1" by simp
  then have "length (dropWhile (\<lambda>c. c \<noteq> NL) data) = Suc (length rest1)" by simp
  moreover have "length (dropWhile (\<lambda>c. c \<noteq> NL) data) \<le> length data"
    by (rule length_dropWhile_le)
  ultimately show "(rest1, data) \<in> measure length" by simp
qed

declare Scan.simps [simp del]

section \<open>Line parser\<close>

text \<open>Go's \<open>int\<close> is 64 bits wide on the platforms the program is built for.\<close>

type_synonym go_int = "64 word"

text \<open>\<open>for i, b := range b { if b == ';' { semiColonIdx = i } }\<close>\<close>

fun range_semicolon :: "char list \<Rightarrow> int \<Rightarrow> int \<Rightarrow> int" where
  "range_semicolon [] i semiColonIdx = semiColonIdx"
| "range_semicolon (c # cs) i semiColonIdx =
     range_semicolon cs (i + 1) (if c = CHR '';'' then i else semiColonIdx)"

definition semiColonIdx :: "char list \<Rightarrow> int" where
  "semiColonIdx b = range_semicolon b 0 (- 1)"

text \<open>
  The temperature loops run over the bytes after the delimiter from the last one
  backwards; they are given these bytes in visiting order.

  \<open>main.go\<close>: \<open>exponent\<close> is declared inside the loop body, so it is 0 whenever it is
  read, and \<open>^\<close> is Go's exclusive or; the byte itself is the factor, and a \<open>-\<close> negates
  and is then added like any other byte.
\<close>

definition byte_to_int :: "char \<Rightarrow> go_int" where
  "byte_to_int c = of_nat (of_char c)"

fun temp_loop_main :: "char list \<Rightarrow> go_int \<Rightarrow> go_int" where
  "temp_loop_main [] stationTemp = stationTemp"
| "temp_loop_main (c # cs) stationTemp =
     (let exponent = (0 :: go_int)
      in if c = CHR ''.'' then temp_loop_main cs stationTemp
         else (let t1 = (if c = CHR ''-'' then stationTemp * (- 1) else stationTemp)
               in temp_loop_main cs (t1 + byte_to_int c * (10 XOR exponent))))"

text \<open>
  The other file: \<open>power10\<close> lives across iterations, the digit is \<open>b[i]-48\<close> computed on
  bytes (so it wraps below \<open>'0'\<close>), and a \<open>-\<close> negates and leaves the loop.
\<close>

definition digit_to_int :: "char \<Rightarrow> go_int" where
  "digit_to_int c = ucast ((of_nat (of_char c) :: 8 word) - 48)"

fun temp_loop_part :: "char list \<Rightarrow> go_int \<Rightarrow> go_int \<Rightarrow> go_int" where
  "temp_loop_part [] stationTemp power10 = stationTemp"
| "temp_loop_part (c # cs) stationTemp power10 =
     (if c = CHR ''.'' then temp_loop_part cs stationTemp power10
      else if c = CHR ''-'' then stationTemp * (- 1)
      else temp_loop_part cs (stationTemp + digit_to_int c * power10) (power10 * 10))"

definition stationTemp_main :: "char list \<Rightarrow> int \<Rightarrow> go_int" where
  "stationTemp_main b semi = temp_loop_main (rev (drop (nat (semi + 1)) b)) 0"

definition stationTemp_part :: "char list \<Rightarrow> int \<Rightarrow> go_int" where
  "stationTemp_part b semi = temp_loop_part (rev (drop (nat (semi + 1)) b)) 0 1"

section \<open>Aggregate store\<close>

text \<open>
  \<open>FinalTally.results\<close> maps a station to a pointer; the pointers are indices into the
  list of all \<open>StationResult\<close> values allocated so far. The mutex of a \<open>StationResult\<close>
  guards the four field updates of one line, which are one step here.
\<close>

record StationResult =
  min_r :: go_int
  max_r :: go_int
  sum_r :: go_int
  count_r :: go_int

record Tally =
  results :: "char list \<Rightarrow> nat option"

record store =
  FinalTally :: Tally
  heap :: "StationResult list"

definition store0 :: store where
  "store0 = \<lparr>FinalTally = \<lparr>results = Map.empty\<rparr>, heap = []\<rparr>"

text \<open>The statements between \<open>result.m.Lock()\<close> and \<open>result.m.Unlock()\<close>.\<close>

definition fold_temp :: "go_int \<Rightarrow> StationResult \<Rightarrow> StationResult" where
  "fold_temp stationTemp result =
     (let r1 = (if max_r result <s stationTemp then result\<lparr>max_r := stationTemp\<rparr> else result);
          r2 = (if stationTemp <s min_r r1 then r1\<lparr>min_r := stationTemp\<rparr> else r1);
          r3 = r2\<lparr>count_r := count_r r2 + 1\<rparr>
      in r3\<lparr>sum_r := sum_r r3 + stationTemp\<rparr>)"

text \<open>
  The map lookup and what follows it: a missing station gets a new zeroed
  \<open>StationResult\<close>, which is updated; the map itself is not assigned to.
\<close>

definition tally_line :: "char list \<Rightarrow> go_int \<Rightarrow> store \<Rightarrow> store" where
  "tally_line station stationTemp s =
     (case results (FinalTally s) station of
        Some a \<Rightarrow> s\<lparr>heap := (heap s)[a := fold_temp stationTemp (heap s ! a)]\<rparr>
      | None \<Rightarrow>
          s\<lparr>heap := heap s @ [fold_temp stationTemp \<lparr>min_r = 0, max_r = 0, sum_r = 0, count_r = 0\<rparr>]\<rparr>)"

text \<open>The body of the \<open>for scanner.Scan()\<close> loop, for one line \<open>b\<close>.\<close>

definition line_main :: "char list \<Rightarrow> store \<Rightarrow> store" where
  "line_main b s =
     (let semi = semiColonIdx b
      in if semi = - 1 then s
         else tally_line (take (nat semi) b) (stationTemp_main b semi) s)"

definition line_part :: "char list \<Rightarrow> store \<Rightarrow> store" where
  "line_part b s =
     (let semi = semiColonIdx b
      in if semi = - 1 then s
         else tally_line (take (nat semi) b) (stationTemp_part b semi) s)"

fun scan_loop_main :: "char list list \<Rightarrow> store \<Rightarrow> store" where
  "scan_loop_main [] s = s"
| "scan_loop_main (b # bs) s = scan_loop_main bs (line_main b s)"

fun scan_loop_part :: "char list list \<Rightarrow> store \<Rightarrow> store" where
  "scan_loop_part [] s = s"
| "scan_loop_part (b # bs) s = scan_loop_part bs (line_part b s)"

text \<open>\<open>parseLines\<close> scans the chunk and then returns it to the pool.\<close>

definition parseLines_main :: "slice \<Rightarrow> store \<times> pool \<Rightarrow> store \<times> pool" where
  "parseLines_main chunk sp = (scan_loop_main (Scan (view chunk)) (fst sp), Put chunk (snd sp))"

definition parseLines_part :: "slice \<Rightarrow> store \<times> pool \<Rightarrow> store \<times> pool" where
  "parseLines_part chunk sp = (scan_loop_part (Scan (view chunk)) (fst sp), Put chunk (snd sp))"

text \<open>\<open>parseCh\<close> starts one \<open>parseLines\<close> per chunk received; here they run one after another.\<close>

fun parseCh_main :: "slice list \<Rightarrow> store \<times> pool \<Rightarrow> store \<times> pool" where
  "parseCh_main [] sp = sp"
| "parseCh_main (chunk # chunks) sp = parseCh_main chunks (parseLines_main chunk sp)"

fun parseCh_part :: "slice list \<Rightarrow> store \<times> pool \<Rightarrow> store \<times> pool" where
  "parseCh_part [] sp = sp"
| "parseCh_part (chunk # chunks) sp = parseCh_part chunks (parseLines_part chunk sp)"

section \<open>Pipeline\<close>

text \<open>
  \<open>main\<close>: the reader's chunks go to \<open>parseCh\<close>; a panic in the reader ends the program.
  The run starts with an empty pool and an empty \<open>FinalTally\<close>.
\<close>

definition pipeline_main :: "nat \<Rightarrow> os_file \<Rightarrow> panic + store \<times> pool" where
  "pipeline_main BUFFER_SIZE filePtr =
     (case readInFile_main BUFFER_SIZE filePtr BufferPool of
        Closed chunks p \<Rightarrow> Inr (parseCh_main chunks (store0, p))
      | Crashed e chunks \<Rightarrow> Inl e)"

definition pipeline_part :: "nat \<Rightarrow> os_file \<Rightarrow> (panic + store \<times> pool) option" where
  "pipeline_part BUFFER_SIZE filePtr =
     (case readInFile_part BUFFER_SIZE filePtr BufferPool of
        None \<Rightarrow> None
      | Some (Closed chunks p) \<Rightarrow> Some (Inr (parseCh_part chunks (store0, p)))
      | Some (Crashed e chunks) \<Rightarrow> Some (Inl e))"

text \<open>The bytes of the chunks of a run, in the order sent.\<close>

definition chunks_of :: "outcome \<Rightarrow> char list list" where
  "chunks_of oc = (case oc of Closed cs p \<Rightarrow> map view cs | Crashed e cs \<Rightarrow> map view cs)"

section \<open>What the reader sends, in closed form\<close>

text \<open>The data of the successive reads of a regular file with a buffer of \<open>BUFFER_SIZE\<close> bytes.\<close>

function blocks :: "nat \<Rightarrow> char list \<Rightarrow> char list list" where
  "blocks BUFFER_SIZE content =
     (if content = [] \<or> BUFFER_SIZE = 0 then []
      else take BUFFER_SIZE content # blocks BUFFER_SIZE (drop BUFFER_SIZE content))"
  by pat_completeness auto
termination
  by (relation "measure (\<lambda>(bs, content). length content)") auto

declare blocks.simps [simp del]

text \<open>
  The part of one read that reaches the chunk: all of it when it ends with a newline or
  holds none, and otherwise the bytes before its last newline.
\<close>

definition cut_block :: "char list \<Rightarrow> char list" where
  "cut_block data =
     (if last data = NL then data
      else (case find_newline data (length data) of Some i \<Rightarrow> take i data | None \<Rightarrow> data))"

text \<open>The states the loops run through, and the pools whose buffers all have the capacity \<open>New\<close> gives.\<close>

definition reader_ok :: "nat \<Rightarrow> reader \<Rightarrow> bool" where
  "reader_ok BUFFER_SIZE r =
     (fragLength r = 0 \<and> len (fragment r) = 0 \<and> length (buffer r) = BUFFER_SIZE)"

definition pool_ok :: "nat \<Rightarrow> pool \<Rightarrow> bool" where
  "pool_ok BUFFER_SIZE p = list_all (\<lambda>x. cap x = BUFFER_SIZE) (items p)"

text \<open>A pool that holds no buffer and has no choice listed, as \<open>BufferPool\<close> at the start.\<close>

definition idle :: "pool \<Rightarrow> bool" where
  "idle p = (items p = [] \<and> picks p = [])"

text \<open>A buffer after it was resliced to the length of \<open>d\<close> and \<open>d\<close> was copied into it.\<close>

definition written :: "slice \<Rightarrow> char list \<Rightarrow> slice" where
  "written got d = got\<lparr>arr := d @ drop (length d) (arr got), len := length d\<rparr>"

text \<open>What a sequence of chunks leaves in the store depends on their bytes only.\<close>

fun scan_chunks_main :: "char list list \<Rightarrow> store \<Rightarrow> store" where
  "scan_chunks_main [] s = s"
| "scan_chunks_main (v # vs) s = scan_chunks_main vs (scan_loop_main (Scan v) s)"

fun scan_chunks_part :: "char list list \<Rightarrow> store \<Rightarrow> store" where
  "scan_chunks_part [] s = s"
| "scan_chunks_part (v # vs) s = scan_chunks_part vs (scan_loop_part (Scan v) s)"

section \<open>The aggregate the specification describes\<close>

text \<open>
  Written from the words of the specification, to compare the program with: the
  temperature text \<open>-?\d+\.\d\<close> stands for ten times its decimal value, the first
  observation of a station creates \<open>{min: value, max: value, sum: value, count: 1}\<close>,
  later ones update it, and the naive fold observes every line that has a delimiter.
\<close>

record aggregate =
  agg_min :: int
  agg_max :: int
  agg_sum :: int
  agg_count :: int

definition is_digit :: "char \<Rightarrow> bool" where
  "is_digit c = (48 \<le> (of_char c :: nat) \<and> (of_char c :: nat) \<le> 57)"

definition digit_val :: "char \<Rightarrow> nat" where
  "digit_val c = of_char c - 48"

fun decimal :: "char list \<Rightarrow> nat \<Rightarrow> nat" where
  "decimal [] acc = acc"
| "decimal (c # cs) acc = decimal cs (10 * acc + digit_val c)"

definition temperature_format :: "char list \<Rightarrow> bool" where
  "temperature_format txt =
     (let t = (case txt of [] \<Rightarrow> [] | c # cs \<Rightarrow> if c = CHR ''-'' then cs else txt)
      in 3 \<le> length t \<and> list_all is_digit (take (length t - 2) t)
         \<and> t ! (length t - 2) = CHR ''.'' \<and> is_digit (last t))"

definition spec_temperature :: "char list \<Rightarrow> int" where
  "spec_temperature txt =
     (case txt of
        [] \<Rightarrow> 0
      | c # cs \<Rightarrow>
          if c = CHR ''-'' then - int (decimal (filter (\<lambda>d. d \<noteq> CHR ''.'') cs) 0)
          else int (decimal (filter (\<lambda>d. d \<noteq> CHR ''.'') txt) 0))"

definition spec_observe ::
    "char list \<Rightarrow> int \<Rightarrow> (char list \<Rightarrow> aggregate option) \<Rightarrow> (char list \<Rightarrow> aggregate option)" where
  "spec_observe station v m =
     (case m station of
        None \<Rightarrow> m(station \<mapsto> \<lparr>agg_min = v, agg_max = v, agg_sum = v, agg_count = 1\<rparr>)
      | Some a \<Rightarrow>
          m(station \<mapsto> \<lparr>agg_min = min (agg_min a) v, agg_max = max (agg_max a) v,
                         agg_sum = agg_sum a + v, agg_count = agg_count a + 1\<rparr>))"

definition spec_station :: "char list \<Rightarrow> char list" where
  "spec_station l = rev (tl (dropWhile (\<lambda>c. c \<noteq> CHR '';'') (rev l)))"

definition spec_temp_text :: "char list \<Rightarrow> char list" where
  "spec_temp_text l = rev (takeWhile (\<lambda>c. c \<noteq> CHR '';'') (rev l))"

fun naive_fold ::
    "char list list \<Rightarrow> (char list \<Rightarrow> aggregate option) \<Rightarrow> (char list \<Rightarrow> aggregate option)" where
  "naive_fold [] m = m"
| "naive_fold (l # ls) m =
     naive_fold ls
       (if CHR '';'' \<in> set l
        then spec_observe (spec_station l) (spec_temperature (spec_temp_text l)) m
        else m)"

text \<open>The lines of a file: the text between newlines, and a last line without newline if there is one.\<close>

fun file_lines :: "char list \<Rightarrow> char list \<Rightarrow> char list list" where
  "file_lines [] cur = (if cur = [] then [] else [cur])"
| "file_lines (c # cs) cur = (if c = NL then cur # file_lines cs [] else file_lines cs (cur @ [c]))"

text \<open>
  The file without its final unterminated fragment, and what it is for the concatenated
  chunks to reproduce the file minus at most that fragment.
\<close>

definition without_last_fragment :: "char list \<Rightarrow> char list" where
  "without_last_fragment content = rev (dropWhile (\<lambda>c. c \<noteq> NL) (rev content))"

definition reproduces :: "char list \<Rightarrow> char list \<Rightarrow> bool" where
  "reproduces content sent =
     (length (without_last_fragment content) \<le> length sent \<and> sent = take (length sent) content)"

text \<open>
  What the program holds for a station when it has finished: the \<open>StationResult\<close> that
  \<open>FinalTally.results\<close> points to, its fields read as signed numbers.
\<close>

definition aggregate_of :: "store \<Rightarrow> char list \<Rightarrow> aggregate option" where
  "aggregate_of s station =
     (case results (FinalTally s) station of
        None \<Rightarrow> None
      | Some a \<Rightarrow>
          Some \<lparr>agg_min = sint (min_r (heap s ! a)), agg_max = sint (max_r (heap s ! a)),
                agg_sum = sint (sum_r (heap s ! a)), agg_count = sint (count_r (heap s ! a))\<rparr>)"

section \<open>Facts about the chunk reader\<close>

lemma go_copy_len0: "len d = 0 \<Longrightarrow> go_copy d src = (d, 0)"
  by (simp add: go_copy_def)

lemma find_newline_append:
  "n \<le> length data \<Longrightarrow> find_newline (data @ rest) n = find_newline data n"
  by (induction n) (auto simp: nth_append)

lemma find_newline_Some: "find_newline buf n = Some i \<Longrightarrow> i < n \<and> buf ! i = NL"
  by (induction n) (auto split: if_splits)

lemma cap_Get_part: "pool_ok bs p \<Longrightarrow> cap (fst (Get_part bs p)) = bs \<and> pool_ok bs (snd (Get_part bs p))"
  by (auto simp: pool_ok_def Get_part_def New_part_def make_bytes_def cap_def pick_def list_all_iff
           split: option.splits list.splits if_splits dest: in_set_takeD in_set_dropD)

lemma cap_Get_main: "pool_ok bs p \<Longrightarrow> cap (fst (Get_main bs p)) = bs \<and> pool_ok bs (snd (Get_main bs p))"
  by (auto simp: pool_ok_def Get_main_def New_main_def make_bytes_def cap_def pick_def list_all_iff
           split: option.splits list.splits if_splits dest: in_set_takeD in_set_dropD)

lemma prepend_fragment_empty: "len (fragment r) = 0 \<Longrightarrow> prepend_fragment clone r = (clone, r)"
  by (simp add: prepend_fragment_def)

lemma prepend_fragment_main:
  "len clone = 0 \<Longrightarrow> fragLength r = 0 \<Longrightarrow>
   prepend_fragment clone r = (clone, r\<lparr>fragment := (fragment r)\<lparr>len := 0\<rparr>\<rparr>)"
  by (auto simp: prepend_fragment_def go_copy_len0)

lemma read_into_regular:
  assumes "fragLength r = 0" "content \<noteq> []" "0 < length (buffer r)"
  shows "read_into r (Regular content) =
           Inr (length (take (length (buffer r)) content), no_error,
                take (length (buffer r)) content @ drop (length (take (length (buffer r)) content)) (buffer r),
                Regular (drop (length (buffer r)) content))"
proof -
  obtain l where l: "length (buffer r) = Suc l" using assms(3) by (cases "length (buffer r)") auto
  show ?thesis using assms l by (simp add: read_into_def Let_def)
qed

lemma index_last: "data \<noteq> [] \<Longrightarrow> index (data @ rest) (int (length data) - 1) = Inr (last data)"
  by (cases data rule: rev_cases) (auto simp: index_def nth_append)

lemma read_into_eof:
  assumes "fragLength r = 0" "0 < length (buffer r)"
  shows "read_into r (Regular []) = Inr (0, io_EOF, buffer r, Regular [])"
proof -
  obtain l where l: "length (buffer r) = Suc l" using assms(2) by (cases "length (buffer r)") auto
  show ?thesis using assms l by (simp add: read_into_def)
qed

lemma cut_partial_len0:
  "len frag = 0 \<Longrightarrow>
   cut_partial buf n frag = ((case find_newline buf n of Some i \<Rightarrow> i | None \<Rightarrow> n), frag)"
  by (simp add: cut_partial_def go_copy_len0 split: option.splits)

lemma after_read_main_data:
  assumes "len clone = 0" "len (fragment r) = 0" "data \<noteq> []" "err \<noteq> io_EOF"
  shows "after_read_main clone r (length data, err, data @ rest, f1) p =
           Emitted clone (r\<lparr>buffer := data @ rest\<rparr>) f1 p"
  using assms
  by (simp add: after_read_main_def index_last cut_partial_len0 go_copy_len0 Let_def)

lemma iter_main_regular:
  assumes "0 < bs" "fragLength r = 0" "length (buffer r) = bs" "content \<noteq> []"
  shows "\<exists>r'. iter_main bs r (Regular content) p =
            Emitted ((fst (Get_main bs p))\<lparr>len := 0\<rparr>) r' (Regular (drop bs content)) (snd (Get_main bs p))
          \<and> fragLength r' = 0 \<and> length (buffer r') = bs"
proof -
  let ?clone = "(fst (Get_main bs p))\<lparr>len := 0\<rparr>"
  let ?r1 = "r\<lparr>fragment := (fragment r)\<lparr>len := 0\<rparr>\<rparr>"
  let ?data = "take bs content"
  let ?buf = "?data @ drop (length ?data) (buffer r)"
  have pf: "prepend_fragment ?clone r = (?clone, ?r1)"
    using assms(2) by (simp add: prepend_fragment_main)
  have rd: "read_into ?r1 (Regular content) = Inr (length ?data, no_error, ?buf, Regular (drop bs content))"
    using read_into_regular[of ?r1 content] assms by simp
  have n: "?data \<noteq> []" "length ?data \<le> bs" using assms by auto
  have ar: "after_read_main ?clone ?r1 (length ?data, no_error, ?buf, Regular (drop bs content)) (snd (Get_main bs p))
            = Emitted ?clone (?r1\<lparr>buffer := ?buf\<rparr>) (Regular (drop bs content)) (snd (Get_main bs p))"
    using n by (intro after_read_main_data) auto
  have "iter_main bs r (Regular content) p = Emitted ?clone (?r1\<lparr>buffer := ?buf\<rparr>) (Regular (drop bs content)) (snd (Get_main bs p))"
    by (simp add: iter_main_def pf rd ar split_beta del: length_take)
  moreover have "fragLength (?r1\<lparr>buffer := ?buf\<rparr>) = 0" using assms by simp
  moreover have "length (buffer (?r1\<lparr>buffer := ?buf\<rparr>)) = bs" using assms n by auto
  ultimately show ?thesis by blast
qed

lemma iter_main_eof:
  assumes "0 < bs" "fragLength r = 0" "length (buffer r) = bs"
  shows "iter_main bs r (Regular []) p = Break (snd (Get_main bs p))"
proof -
  let ?clone = "(fst (Get_main bs p))\<lparr>len := 0\<rparr>"
  let ?r1 = "r\<lparr>fragment := (fragment r)\<lparr>len := 0\<rparr>\<rparr>"
  have pf: "prepend_fragment ?clone r = (?clone, ?r1)"
    using assms(2) by (simp add: prepend_fragment_main)
  have rd: "read_into ?r1 (Regular []) = Inr (0, io_EOF, buffer ?r1, Regular [])"
    using assms by (intro read_into_eof) auto
  show ?thesis
    by (simp add: iter_main_def pf rd after_read_main_def split_beta)
qed

lemma blocks_Nil: "blocks bs [] = []"
  by (simp add: blocks.simps)

lemma blocks_step:
  "content \<noteq> [] \<Longrightarrow> 0 < bs \<Longrightarrow>
   blocks bs content = take bs content # blocks bs (drop bs content)"
  by (subst blocks.simps) simp

lemma loop_main_regular:
  assumes "0 < bs"
  shows "fragLength r = 0 \<Longrightarrow> length (buffer r) = bs \<Longrightarrow>
         \<exists>cs p'. readInFile_loop_main bs r (Regular content) p out = Closed (out @ cs) p'
                \<and> map view cs = map (\<lambda>d. []) (blocks bs content) \<and> (pool_ok bs p \<longrightarrow> pool_ok bs p' \<and> list_all (\<lambda>c. cap c = bs) cs)"
proof (induction "length content" arbitrary: content r p out rule: less_induct)
  case less
  show ?case
  proof (cases "content = []")
    case True
    then show ?thesis using less.prems assms iter_main_eof[of bs r p]
      by (subst readInFile_loop_main.simps) (simp add: cap_Get_main blocks_Nil)
  next
    case False
    from iter_main_regular[OF assms less.prems False, of p] obtain r' where
      it: "iter_main bs r (Regular content) p =
            Emitted ((fst (Get_main bs p))\<lparr>len := 0\<rparr>) r' (Regular (drop bs content)) (snd (Get_main bs p))"
      and r': "fragLength r' = 0" "length (buffer r') = bs" by blast
    have "length (drop bs content) < length content" using False assms by simp
    from less.hyps[OF this r', of "snd (Get_main bs p)" "out @ [(fst (Get_main bs p))\<lparr>len := 0\<rparr>]"]
    obtain cs p' where
      rec: "readInFile_loop_main bs r' (Regular (drop bs content)) (snd (Get_main bs p)) (out @ [(fst (Get_main bs p))\<lparr>len := 0\<rparr>]) = Closed (out @ [(fst (Get_main bs p))\<lparr>len := 0\<rparr>] @ cs) p'"
      and vs: "map view cs = map (\<lambda>d. []) (blocks bs (drop bs content))"
      and pk: "pool_ok bs (snd (Get_main bs p)) \<longrightarrow> pool_ok bs p' \<and> list_all (\<lambda>c. cap c = bs) cs"
      by auto
    have "readInFile_loop_main bs r (Regular content) p out = Closed (out @ ((fst (Get_main bs p))\<lparr>len := 0\<rparr> # cs)) p'"
      using it rec by (subst readInFile_loop_main.simps) simp
    moreover have "map view ((fst (Get_main bs p))\<lparr>len := 0\<rparr> # cs) = map (\<lambda>d. []) (blocks bs content)"
      using vs by (simp add: view_def blocks_step [OF False assms])
    moreover have "pool_ok bs p \<longrightarrow> pool_ok bs p' \<and> list_all (\<lambda>c. cap c = bs) ((fst (Get_main bs p))\<lparr>len := 0\<rparr> # cs)"
      using pk cap_Get_main[of bs p] by (auto simp: cap_def)
    ultimately show ?thesis by blast
  qed
qed


lemma length_cut_block: "length (cut_block data) \<le> length data"
  by (auto simp: cut_block_def split: option.splits)

lemma cut_block_take: "take (length (cut_block data)) (data @ rest) = cut_block data"
  by (auto simp: cut_block_def split: option.splits dest!: find_newline_Some)

lemma cut_partial_fst:
  "data \<noteq> [] \<Longrightarrow> len frag = 0 \<Longrightarrow>
   (if last data \<noteq> NL then cut_partial (data @ rest) (length data) frag else (length data, frag))
     = (length (cut_block data), frag)"
  by (auto simp: cut_partial_len0 cut_block_def find_newline_append split: option.splits dest!: find_newline_Some)

lemma after_read_part_data:
  assumes "fragLength r = 0" "len (fragment r) = 0" "data \<noteq> []" "err \<noteq> io_EOF" "length data \<le> cap clone"
  shows "after_read_part clone r (length data, err, data @ rest, f1) p =
           Emitted (clone\<lparr>arr := cut_block data @ drop (length (cut_block data)) (arr clone), len := length (cut_block data)\<rparr>)
                   (r\<lparr>buffer := data @ rest\<rparr>) f1 p"
proof -
  have le: "length (cut_block data) \<le> cap clone"
    using length_cut_block[of data] assms(5) by simp
  have cp: "go_copy (clone\<lparr>len := length (cut_block data)\<rparr>) (cut_block data)
              = (clone\<lparr>arr := cut_block data @ drop (length (cut_block data)) (arr clone), len := length (cut_block data)\<rparr>, length (cut_block data))"
    by (simp add: go_copy_def Let_def)
  show ?thesis
    using assms(1,4)
    by (simp add: after_read_part_def index_last[OF assms(3)] cut_partial_fst[OF assms(3,2)]
                  reslice_def le cut_block_take cp del: One_nat_def take_append)
qed

lemma view_emitted:
  "n \<le> length (arr clone) \<Longrightarrow> length d = n \<Longrightarrow> view (clone\<lparr>arr := d @ drop n (arr clone), len := n\<rparr>) = d
     \<and> cap (clone\<lparr>arr := d @ drop n (arr clone), len := n\<rparr>) = cap clone"
  by (simp add: view_def cap_def)

lemma iter_part_regular:
  assumes "0 < bs" "reader_ok bs r" "content \<noteq> []" "pool_ok bs p"
  shows "\<exists>r'. iter_part bs r (Regular content) p =
            Emitted (written (fst (Get_part bs p)) (cut_block (take bs content))) r'
              (Regular (drop bs content)) (snd (Get_part bs p))
          \<and> reader_ok bs r'"
proof -
  let ?got = "fst (Get_part bs p)"
  let ?data = "take bs content"
  let ?buf = "?data @ drop (length ?data) (buffer r)"
  let ?c = "?got\<lparr>arr := cut_block ?data @ drop (length (cut_block ?data)) (arr ?got), len := length (cut_block ?data)\<rparr>"
  have r: "fragLength r = 0" "len (fragment r) = 0" "length (buffer r) = bs"
    using assms(2) by (auto simp: reader_ok_def)
  have capg: "cap ?got = bs" using cap_Get_part[OF assms(4)] by simp
  have pf: "prepend_fragment ?got r = (?got, r)"
    using r by (simp add: prepend_fragment_empty)
  have rd: "read_into r (Regular content) = Inr (length ?data, no_error, ?buf, Regular (drop bs content))"
    using read_into_regular[of r content] assms r by simp
  have n: "?data \<noteq> []" "length ?data \<le> bs" using assms by auto
  have ar: "after_read_part ?got r (length ?data, no_error, ?buf, Regular (drop bs content)) (snd (Get_part bs p))
            = Emitted ?c (r\<lparr>buffer := ?buf\<rparr>) (Regular (drop bs content)) (snd (Get_part bs p))"
    using n r capg by (intro after_read_part_data) auto
  have it: "iter_part bs r (Regular content) p = Emitted ?c (r\<lparr>buffer := ?buf\<rparr>) (Regular (drop bs content)) (snd (Get_part bs p))"
    by (simp add: iter_part_def pf rd ar split_beta del: length_take)
  have ro: "reader_ok bs (r\<lparr>buffer := ?buf\<rparr>)" using r n by (auto simp: reader_ok_def)
  show ?thesis
    by (rule exI[of _ "r\<lparr>buffer := ?buf\<rparr>"]) (simp only: it ro written_def simp_thms)
qed

lemma view_written:
  "length d \<le> cap got \<Longrightarrow> view (written got d) = d \<and> cap (written got d) = cap got"
  by (simp add: written_def view_def cap_def)

lemma iter_part_eof:
  assumes "0 < bs" "reader_ok bs r"
  shows "iter_part bs r (Regular []) p = Break (snd (Get_part bs p))"
proof -
  have r: "fragLength r = 0" "len (fragment r) = 0" "length (buffer r) = bs"
    using assms(2) by (auto simp: reader_ok_def)
  have pf: "prepend_fragment (fst (Get_part bs p)) r = (fst (Get_part bs p), r)"
    using r by (simp add: prepend_fragment_empty)
  have rd: "read_into r (Regular []) = Inr (0, io_EOF, buffer r, Regular [])"
    using assms r by (intro read_into_eof) auto
  show ?thesis
    by (simp add: iter_part_def pf rd after_read_part_def split_beta)
qed

lemma loop_part_regular:
  assumes "0 < bs"
  shows "reader_ok bs r \<Longrightarrow> pool_ok bs p \<Longrightarrow>
         \<exists>cs p'. readInFile_loop_part bs r (Regular content) p out = Some (Closed (out @ cs) p')
                \<and> map view cs = map cut_block (blocks bs content) \<and> pool_ok bs p' \<and> list_all (\<lambda>c. cap c = bs) cs"
proof (induction "length content" arbitrary: content r p out rule: less_induct)
  case less
  show ?case
  proof (cases "content = []")
    case True
    then show ?thesis using less.prems assms iter_part_eof[of bs r p]
      by (subst readInFile_loop_part.simps) (simp add: cap_Get_part blocks_Nil)
  next
    case False
    define c where "c = written (fst (Get_part bs p)) (cut_block (take bs content))"
    from iter_part_regular[OF assms less.prems(1) False less.prems(2)] obtain r' where
      it: "iter_part bs r (Regular content) p = Emitted c r' (Regular (drop bs content)) (snd (Get_part bs p))"
      and r': "reader_ok bs r'" unfolding c_def by blast
    have "length (cut_block (take bs content)) \<le> cap (fst (Get_part bs p))"
      using length_cut_block [of "take bs content"] cap_Get_part [OF less.prems(2)] by simp
    then have c: "view c = cut_block (take bs content)" "cap c = bs"
      using view_written [of "cut_block (take bs content)" "fst (Get_part bs p)"]
            cap_Get_part [OF less.prems(2)] unfolding c_def by simp_all
    have "length (drop bs content) < length content" using False assms by simp
    from less.hyps[OF this r', of "snd (Get_part bs p)" "out @ [c]"] cap_Get_part[OF less.prems(2)]
    obtain cs p' where
      rec: "readInFile_loop_part bs r' (Regular (drop bs content)) (snd (Get_part bs p)) (out @ [c]) = Some (Closed (out @ [c] @ cs) p')"
      and vs: "map view cs = map cut_block (blocks bs (drop bs content))"
      and pk: "pool_ok bs p'" "list_all (\<lambda>c. cap c = bs) cs"
      by auto
    have "readInFile_loop_part bs r (Regular content) p out = Some (Closed (out @ (c # cs)) p')"
      using it rec by (subst readInFile_loop_part.simps) simp
    moreover have "map view (c # cs) = map cut_block (blocks bs content)"
      using vs c by (simp add: blocks_step [OF False assms])
    moreover have "list_all (\<lambda>c. cap c = bs) (c # cs)"
      using pk c by simp
    ultimately show ?thesis using pk(1) by blast
  qed
qed


section \<open>Facts about the line parser\<close>







lemma results_tally_line: "results (FinalTally (tally_line st t s)) = results (FinalTally s)"
  by (simp add: tally_line_def split: option.splits)

lemma results_line_main: "results (FinalTally (line_main b s)) = results (FinalTally s)"
  by (simp add: line_main_def Let_def results_tally_line)

lemma results_line_part: "results (FinalTally (line_part b s)) = results (FinalTally s)"
  by (simp add: line_part_def Let_def results_tally_line)

lemma results_scan_loop_main: "results (FinalTally (scan_loop_main bs s)) = results (FinalTally s)"
  by (induction bs arbitrary: s) (auto simp: results_line_main)

lemma results_scan_loop_part: "results (FinalTally (scan_loop_part bs s)) = results (FinalTally s)"
  by (induction bs arbitrary: s) (auto simp: results_line_part)

lemma results_parseLines_main:
  "results (FinalTally (fst (parseLines_main chunk sp))) = results (FinalTally (fst sp))"
  by (simp add: parseLines_main_def results_scan_loop_main)

lemma results_parseLines_part:
  "results (FinalTally (fst (parseLines_part chunk sp))) = results (FinalTally (fst sp))"
  by (simp add: parseLines_part_def results_scan_loop_part)

lemma results_parseCh_main:
  "results (FinalTally (fst (parseCh_main chunks sp))) = results (FinalTally (fst sp))"
  by (induction chunks arbitrary: sp) (auto simp: results_parseLines_main)

lemma results_parseCh_part:
  "results (FinalTally (fst (parseCh_part chunks sp))) = results (FinalTally (fst sp))"
  by (induction chunks arbitrary: sp) (auto simp: results_parseLines_part)

section \<open>Facts about the pipeline\<close>

lemma Scan_Nil: "Scan [] = []"
  by (simp add: Scan.simps)

lemma parseCh_main_views: "fst (parseCh_main cs sp) = scan_chunks_main (map view cs) (fst sp)"
  by (induction cs arbitrary: sp) (auto simp: parseLines_main_def)

lemma parseCh_part_views: "fst (parseCh_part cs sp) = scan_chunks_part (map view cs) (fst sp)"
  by (induction cs arbitrary: sp) (auto simp: parseLines_part_def)

lemma scan_chunks_main_empty: "scan_chunks_main (map (\<lambda>d. []) bl) s = s"
  by (induction bl) (auto simp: Scan_Nil)

lemma reader_main_initial:
  "fragLength \<lparr>buffer = replicate bs (CHR 0x00), fragment = make_bytes 1024 1024, fragLength = 0\<rparr> = 0
   \<and> length (buffer \<lparr>buffer = replicate bs (CHR 0x00), fragment = make_bytes 1024 1024, fragLength = 0\<rparr>) = bs"
  by simp

lemma reader_part_initial:
  "reader_ok bs \<lparr>buffer = replicate bs (CHR 0x00), fragment = make_bytes 0 0, fragLength = 0\<rparr>"
  by (simp add: reader_ok_def make_bytes_def)

lemma pool_ok_BufferPool: "pool_ok bs BufferPool"
  by (simp add: pool_ok_def BufferPool_def)

lemma readInFile_main_regular:
  assumes "0 < bs"
  shows "\<exists>cs p'. readInFile_main bs (Regular content) p = Closed cs p'
           \<and> map view cs = map (\<lambda>d. []) (blocks bs content)
           \<and> (pool_ok bs p \<longrightarrow> pool_ok bs p' \<and> list_all (\<lambda>c. cap c = bs) cs)"
  using loop_main_regular [OF assms, of _ content p "[]"] reader_main_initial [of bs]
  unfolding readInFile_main_def by simp

lemma readInFile_part_regular:
  assumes "0 < bs" "pool_ok bs p"
  shows "\<exists>cs p'. readInFile_part bs (Regular content) p = Some (Closed cs p')
           \<and> map view cs = map cut_block (blocks bs content)
           \<and> pool_ok bs p' \<and> list_all (\<lambda>c. cap c = bs) cs"
  using loop_part_regular [OF assms(1) reader_part_initial assms(2), of content "[]"]
  unfolding readInFile_part_def by simp

lemma pipeline_main_regular:
  assumes "0 < bs"
  shows "\<exists>p. pipeline_main bs (Regular content) = Inr (store0, p)"
proof -
  from readInFile_main_regular [OF assms, of content BufferPool] obtain cs p' where
    rd: "readInFile_main bs (Regular content) BufferPool = Closed cs p'"
    and vs: "map view cs = map (\<lambda>d. []) (blocks bs content)" by blast
  have "fst (parseCh_main cs (store0, p')) = store0"
    by (simp add: parseCh_main_views vs scan_chunks_main_empty)
  then have "parseCh_main cs (store0, p') = (store0, snd (parseCh_main cs (store0, p')))"
    by (simp add: prod_eq_iff)
  then show ?thesis using rd by (auto simp: pipeline_main_def)
qed

lemma pipeline_part_regular:
  assumes "0 < bs"
  shows "\<exists>p. pipeline_part bs (Regular content)
              = Some (Inr (scan_chunks_part (map cut_block (blocks bs content)) store0, p))"
proof -
  from readInFile_part_regular [OF assms pool_ok_BufferPool, of content] obtain cs p' where
    rd: "readInFile_part bs (Regular content) BufferPool = Some (Closed cs p')"
    and vs: "map view cs = map cut_block (blocks bs content)" by blast
  have "fst (parseCh_part cs (store0, p')) = scan_chunks_part (map cut_block (blocks bs content)) store0"
    by (simp add: parseCh_part_views vs)
  then have "parseCh_part cs (store0, p')
               = (scan_chunks_part (map cut_block (blocks bs content)) store0, snd (parseCh_part cs (store0, p')))"
    by (simp add: prod_eq_iff)
  then show ?thesis using rd by (auto simp: pipeline_part_def)
qed

lemma results_scan_chunks_part:
  "results (FinalTally (scan_chunks_part vs s)) = results (FinalTally s)"
  by (induction vs arbitrary: s) (auto simp: results_scan_loop_part)

lemma results_store0: "results (FinalTally store0) = Map.empty"
  by (simp add: store0_def)

lemma pipeline_main_results:
  assumes "pipeline_main bs f = Inr (s, p)"
  shows "results (FinalTally s) = Map.empty"
proof -
  from assms obtain cs p' where
    "parseCh_main cs (store0, p') = (s, p)"
    by (auto simp: pipeline_main_def split: outcome.splits)
  then have "fst (parseCh_main cs (store0, p')) = s" by simp
  with results_parseCh_main [of cs "(store0, p')"] show ?thesis
    by (simp add: results_store0)
qed

lemma pipeline_part_results:
  assumes "pipeline_part bs f = Some (Inr (s, p))"
  shows "results (FinalTally s) = Map.empty"
proof -
  from assms obtain cs p' where
    "parseCh_part cs (store0, p') = (s, p)"
    by (auto simp: pipeline_part_def split: outcome.splits option.splits)
  then have "fst (parseCh_part cs (store0, p')) = s" by simp
  with results_parseCh_part [of cs "(store0, p')"] show ?thesis
    by (simp add: results_store0)
qed

section \<open>The run from an empty pool, in closed form\<close>

lemma idle_picks: "idle p \<Longrightarrow> p\<lparr>picks := tl (picks p)\<rparr> = p"
  by (cases p) (simp add: idle_def)

lemma Get_main_fresh:
  "idle p \<Longrightarrow> Get_main bs p = (make_bytes 0 bs, p\<lparr>BuffersAllocated := BuffersAllocated p + 1\<rparr>)"
  by (cases p) (simp add: Get_main_def New_main_def idle_def pick_def)

lemma Get_part_fresh: "idle p \<Longrightarrow> Get_part bs p = (make_bytes 0 bs, p)"
  by (cases p) (simp add: Get_part_def New_part_def idle_def pick_def)

lemma pool_ok_fresh: "idle p \<Longrightarrow> pool_ok bs p"
  by (simp add: pool_ok_def idle_def)

lemma idle_BufferPool: "idle BufferPool"
  by (simp add: idle_def BufferPool_def)

lemma loop_main_fresh:
  assumes "0 < bs"
  shows "fragLength r = 0 \<Longrightarrow> length (buffer r) = bs \<Longrightarrow> idle p \<Longrightarrow>
         readInFile_loop_main bs r (Regular content) p out
           = Closed (out @ map (\<lambda>d. make_bytes 0 bs) (blocks bs content))
               (p\<lparr>BuffersAllocated := BuffersAllocated p + length (blocks bs content) + 1\<rparr>)"
proof (induction "length content" arbitrary: content r p out rule: less_induct)
  case less
  show ?case
  proof (cases "content = []")
    case True
    then show ?thesis using less.prems assms iter_main_eof[of bs r p]
      by (subst readInFile_loop_main.simps) (simp add: Get_main_fresh blocks_Nil)
  next
    case False
    let ?p1 = "p\<lparr>BuffersAllocated := BuffersAllocated p + 1\<rparr>"
    from iter_main_regular[OF assms less.prems(1,2) False, of p] obtain r' where
      it: "iter_main bs r (Regular content) p = Emitted (make_bytes 0 bs) r' (Regular (drop bs content)) ?p1"
      and r': "fragLength r' = 0" "length (buffer r') = bs"
      by (auto simp: Get_main_fresh [OF less.prems(3)] make_bytes_def)
    have lt: "length (drop bs content) < length content" using False assms by simp
    have p1: "idle ?p1" using less.prems(3) by (simp add: idle_def)
    have "readInFile_loop_main bs r (Regular content) p out
            = readInFile_loop_main bs r' (Regular (drop bs content)) ?p1 (out @ [make_bytes 0 bs])"
      by (subst readInFile_loop_main.simps) (simp only: it step.case)
    also have "\<dots> = Closed ((out @ [make_bytes 0 bs]) @ map (\<lambda>d. make_bytes 0 bs) (blocks bs (drop bs content)))
                        (?p1\<lparr>BuffersAllocated := BuffersAllocated ?p1 + length (blocks bs (drop bs content)) + 1\<rparr>)"
      by (rule less.hyps [OF lt r' p1])
    also have "\<dots> = Closed (out @ map (\<lambda>d. make_bytes 0 bs) (blocks bs content))
                        (p\<lparr>BuffersAllocated := BuffersAllocated p + length (blocks bs content) + 1\<rparr>)"
      by (simp add: blocks_step [OF False assms])
    finally show ?thesis .
  qed
qed

lemma loop_part_fresh:
  assumes "0 < bs"
  shows "reader_ok bs r \<Longrightarrow> idle p \<Longrightarrow>
         readInFile_loop_part bs r (Regular content) p out
           = Some (Closed (out @ map (\<lambda>d. written (make_bytes 0 bs) (cut_block d)) (blocks bs content)) p)"
proof (induction "length content" arbitrary: content r out rule: less_induct)
  case less
  show ?case
  proof (cases "content = []")
    case True
    then show ?thesis using less.prems assms iter_part_eof[of bs r p]
      by (subst readInFile_loop_part.simps) (simp add: Get_part_fresh blocks_Nil)
  next
    case False
    from iter_part_regular[OF assms less.prems(1) False pool_ok_fresh [OF less.prems(2)]] obtain r' where
      it: "iter_part bs r (Regular content) p
             = Emitted (written (make_bytes 0 bs) (cut_block (take bs content))) r' (Regular (drop bs content)) p"
      and r': "reader_ok bs r'"
      by (auto simp: Get_part_fresh [OF less.prems(2)])
    have lt: "length (drop bs content) < length content" using False assms by simp
    have "readInFile_loop_part bs r (Regular content) p out
            = readInFile_loop_part bs r' (Regular (drop bs content)) p
                (out @ [written (make_bytes 0 bs) (cut_block (take bs content))])"
      by (subst readInFile_loop_part.simps) (simp only: it step.case)
    also have "\<dots> = Some (Closed ((out @ [written (make_bytes 0 bs) (cut_block (take bs content))])
                          @ map (\<lambda>d. written (make_bytes 0 bs) (cut_block d)) (blocks bs (drop bs content))) p)"
      by (rule less.hyps [OF lt r' less.prems(2)])
    also have "\<dots> = Some (Closed (out @ map (\<lambda>d. written (make_bytes 0 bs) (cut_block d)) (blocks bs content)) p)"
      by (simp add: blocks_step [OF False assms])
    finally show ?thesis .
  qed
qed

lemma readInFile_main_fresh:
  assumes "0 < bs"
  shows "readInFile_main bs (Regular content) BufferPool
           = Closed (map (\<lambda>d. make_bytes 0 bs) (blocks bs content))
               \<lparr>items = [], BuffersAllocated = length (blocks bs content) + 1, picks = []\<rparr>"
  unfolding readInFile_main_def
  by (subst loop_main_fresh [OF assms]) (simp_all add: BufferPool_def idle_def)

lemma readInFile_part_fresh:
  assumes "0 < bs"
  shows "readInFile_part bs (Regular content) BufferPool
           = Some (Closed (map (\<lambda>d. written (make_bytes 0 bs) (cut_block d)) (blocks bs content)) BufferPool)"
  unfolding readInFile_part_def
  by (subst loop_part_fresh [OF assms]) (simp_all add: BufferPool_def idle_def reader_ok_def make_bytes_def)

lemma parseCh_main_pool: "snd (parseCh_main cs sp) = (snd sp)\<lparr>items := rev cs @ items (snd sp)\<rparr>"
  by (induction cs arbitrary: sp) (auto simp: parseLines_main_def Put_def)

lemma parseCh_part_pool: "snd (parseCh_part cs sp) = (snd sp)\<lparr>items := rev cs @ items (snd sp)\<rparr>"
  by (induction cs arbitrary: sp) (auto simp: parseLines_part_def Put_def)

lemma view_written_fresh:
  "length d \<le> bs \<Longrightarrow> view (written (make_bytes 0 bs) d) = d"
  using view_written [of d "make_bytes 0 bs"] by (simp add: cap_def make_bytes_def)

lemma length_block: "d \<in> set (blocks bs content) \<Longrightarrow> length d \<le> bs"
proof (induction "length content" arbitrary: content rule: less_induct)
  case less
  show ?case
  proof (cases "content = [] \<or> bs = 0")
    case True
    with less.prems show ?thesis by (auto simp: blocks.simps)
  next
    case False
    then have st: "blocks bs content = take bs content # blocks bs (drop bs content)"
      by (simp add: blocks_step)
    have lt: "length (drop bs content) < length content" using False by simp
    from less.prems st have "d = take bs content \<or> d \<in> set (blocks bs (drop bs content))" by simp
    then show ?thesis using less.hyps [OF lt] by auto
  qed
qed

lemma views_written_blocks:
  "map view (map (\<lambda>d. written (make_bytes 0 bs) (cut_block d)) (blocks bs content))
     = map cut_block (blocks bs content)"
proof -
  have "\<And>d. d \<in> set (blocks bs content) \<Longrightarrow> view (written (make_bytes 0 bs) (cut_block d)) = cut_block d"
    using length_block length_cut_block view_written_fresh by (meson le_trans)
  then show ?thesis by simp
qed

lemma pipeline_main_fresh:
  assumes "0 < bs"
  shows "pipeline_main bs (Regular content)
           = Inr (store0, \<lparr>items = map (\<lambda>d. make_bytes 0 bs) (rev (blocks bs content)),
                           BuffersAllocated = length (blocks bs content) + 1, picks = []\<rparr>)"
proof -
  let ?cs = "map (\<lambda>d. make_bytes 0 bs) (blocks bs content)"
  let ?p = "\<lparr>items = [], BuffersAllocated = length (blocks bs content) + 1, picks = []\<rparr>"
  have f: "fst (parseCh_main ?cs (store0, ?p)) = store0"
    by (simp add: parseCh_main_views scan_chunks_main_empty view_def make_bytes_def comp_def)
  have s: "snd (parseCh_main ?cs (store0, ?p)) = ?p\<lparr>items := rev ?cs\<rparr>"
    by (simp add: parseCh_main_pool)
  have "parseCh_main ?cs (store0, ?p) = (store0, ?p\<lparr>items := rev ?cs\<rparr>)"
    using f s by (simp add: prod_eq_iff)
  then show ?thesis
    by (simp add: pipeline_main_def readInFile_main_fresh [OF assms] rev_map)
qed

lemma pipeline_part_fresh:
  assumes "0 < bs"
  shows "pipeline_part bs (Regular content)
           = Some (Inr (scan_chunks_part (map cut_block (blocks bs content)) store0,
                        \<lparr>items = map (\<lambda>d. written (make_bytes 0 bs) (cut_block d)) (rev (blocks bs content)),
                          BuffersAllocated = 0, picks = []\<rparr>))"
proof -
  let ?cs = "map (\<lambda>d. written (make_bytes 0 bs) (cut_block d)) (blocks bs content)"
  have f: "fst (parseCh_part ?cs (store0, BufferPool)) = scan_chunks_part (map cut_block (blocks bs content)) store0"
    by (simp only: parseCh_part_views views_written_blocks fst_conv)
  have s: "snd (parseCh_part ?cs (store0, BufferPool)) = BufferPool\<lparr>items := rev ?cs\<rparr>"
    by (simp add: parseCh_part_pool BufferPool_def)
  have "parseCh_part ?cs (store0, BufferPool)
          = (scan_chunks_part (map cut_block (blocks bs content)) store0, BufferPool\<lparr>items := rev ?cs\<rparr>)"
    using f s by (simp add: prod_eq_iff)
  then have "pipeline_part bs (Regular content)
          = Some (Inr (scan_chunks_part (map cut_block (blocks bs content)) store0, BufferPool\<lparr>items := rev ?cs\<rparr>))"
    by (simp add: pipeline_part_def readInFile_part_fresh [OF assms])
  then show ?thesis
    by (simp add: rev_map BufferPool_def)
qed


section \<open>Facts about the end of the file\<close>

lemma read_into_eof_any:
  assumes "fragLength r < length (buffer r)"
  shows "read_into r (Regular []) = Inr (0, io_EOF, buffer r, Regular [])"
proof -
  obtain l where l: "length (buffer r) - fragLength r = Suc l"
    using assms by (cases "length (buffer r) - fragLength r") auto
  show ?thesis using assms l by (simp add: read_into_def)
qed

lemma prepend_fragment_bound:
  assumes "fragLength r < length (buffer r)" "len (fragment r) < length (buffer r)"
  shows "fragLength (snd (prepend_fragment clone r)) < length (buffer (snd (prepend_fragment clone r)))"
  using assms by (auto simp: prepend_fragment_def go_copy_def view_def Let_def)

lemma prepend_fragment_bound_main:
  assumes "fragLength r < length (buffer r)" "len clone = 0"
  shows "fragLength (snd (prepend_fragment clone r)) < length (buffer (snd (prepend_fragment clone r)))"
  using assms by (auto simp: prepend_fragment_def go_copy_def Let_def)

lemma iter_main_eof_any:
  assumes "fragLength r < length (buffer r)"
  shows "iter_main bs r (Regular []) p = Break (snd (Get_main bs p))"
proof -
  let ?pf = "prepend_fragment ((fst (Get_main bs p))\<lparr>len := 0\<rparr>) r"
  have "fragLength (snd ?pf) < length (buffer (snd ?pf))"
    using assms by (intro prepend_fragment_bound_main) auto
  from read_into_eof_any [OF this] show ?thesis
    by (simp add: iter_main_def split_beta after_read_main_def)
qed

lemma iter_part_eof_any:
  assumes "fragLength r < length (buffer r)" "len (fragment r) < length (buffer r)"
  shows "iter_part bs r (Regular []) p = Break (snd (Get_part bs p))"
proof -
  let ?pf = "prepend_fragment (fst (Get_part bs p)) r"
  have "fragLength (snd ?pf) < length (buffer (snd ?pf))"
    using assms by (intro prepend_fragment_bound) auto
  from read_into_eof_any [OF this] show ?thesis
    by (simp add: iter_part_def split_beta after_read_part_def)
qed

section \<open>Facts about reads that deliver nothing\<close>

lemma file_Read_length: "length (fst (fst (file_Read f l))) \<le> l"
  by (cases f; cases l) auto

lemma file_Read_Directory: "file_Read Directory l = (([], if l = 0 then no_error else EISDIR), Directory)"
  by (cases l) auto

lemma file_Read_zero: "file_Read f 0 = (([], no_error), f)"
  by simp

lemma after_read_main_panic:
  assumes "err \<noteq> io_EOF" "n \<le> length buf"
  shows "(after_read_main clone r (n, err, buf, f1) p = Panicked (IndexOutOfRange (- 1))) = (n = 0)"
proof (cases "n = 0")
  case True
  then show ?thesis using assms by (simp add: after_read_main_def index_def)
next
  case False
  then have "index buf (int n - 1) = Inr (buf ! nat (int n - 1))"
    using assms by (simp add: index_def)
  then show ?thesis using assms False
    by (simp add: after_read_main_def split_beta Let_def)
qed

lemma after_read_part_panic:
  assumes "err \<noteq> io_EOF" "fragLength r + n \<le> length buf"
  shows "(after_read_part clone r (n, err, buf, f1) p = Panicked (IndexOutOfRange (- 1)))
           = (fragLength r + n = 0)"
proof (cases "fragLength r + n = 0")
  case True
  then show ?thesis using assms by (simp add: after_read_part_def index_def)
next
  case False
  then have "index buf (int (fragLength r) + int n - 1) = Inr (buf ! nat (int (fragLength r) + int n - 1))"
    using assms by (auto simp: index_def)
  then show ?thesis using assms False
    by (auto simp: after_read_part_def split_beta Let_def reslice_def split: sum.splits)
qed

lemma iter_part_keeps_ok:
  assumes "reader_ok bs r" "iter_part bs r f p = Emitted c r' f' p'"
  shows "reader_ok bs r'"
proof -
  have r: "fragLength r = 0" "len (fragment r) = 0" "length (buffer r) = bs"
    using assms(1) by (auto simp: reader_ok_def)
  let ?data = "fst (fst (file_Read f bs))"
  have le: "length ?data \<le> bs" by (rule file_Read_length)
  have pf: "prepend_fragment (fst (Get_part bs p)) r = (fst (Get_part bs p), r)"
    using r by (simp add: prepend_fragment_empty)
  have rd: "read_into r f = Inr (length ?data, snd (fst (file_Read f bs)), ?data @ drop (length ?data) (buffer r), snd (file_Read f bs))"
    using r by (simp add: read_into_def split_beta Let_def)
  from assms(2) have "r' = r\<lparr>buffer := ?data @ drop (length ?data) (buffer r)\<rparr>"
    using r
    by (auto simp: iter_part_def pf rd after_read_part_def split_beta Let_def cut_partial_len0
             split: if_splits sum.splits)
  then show ?thesis using r le by (simp add: reader_ok_def)
qed

lemma readInFile_main_no_bytes:
  assumes "file_Read f bs = (([], e), f1)" "e \<noteq> io_EOF"
  shows "readInFile_main bs f p = Crashed (IndexOutOfRange (- 1)) []"
proof -
  let ?r = "\<lparr>buffer = replicate bs (CHR 0x00), fragment = make_bytes 1024 1024, fragLength = 0\<rparr>"
  let ?clone = "(fst (Get_main bs p))\<lparr>len := 0\<rparr>"
  have pf: "prepend_fragment ?clone ?r = (?clone, ?r\<lparr>fragment := (fragment ?r)\<lparr>len := 0\<rparr>\<rparr>)"
    by (simp add: prepend_fragment_main)
  have "iter_main bs ?r f p = Panicked (IndexOutOfRange (- 1))"
    using assms by (simp add: iter_main_def pf read_into_def after_read_main_def index_def split_beta)
  then show ?thesis
    unfolding readInFile_main_def by (subst readInFile_loop_main.simps) simp
qed

lemma readInFile_part_no_bytes:
  assumes "file_Read f bs = (([], e), f1)" "e \<noteq> io_EOF"
  shows "readInFile_part bs f p = Some (Crashed (IndexOutOfRange (- 1)) [])"
proof -
  let ?r = "\<lparr>buffer = replicate bs (CHR 0x00), fragment = make_bytes 0 0, fragLength = 0\<rparr>"
  have pf: "prepend_fragment (fst (Get_part bs p)) ?r = (fst (Get_part bs p), ?r)"
    by (simp add: prepend_fragment_empty make_bytes_def)
  have "iter_part bs ?r f p = Panicked (IndexOutOfRange (- 1))"
    using assms by (simp add: iter_part_def pf read_into_def after_read_part_def index_def split_beta)
  then show ?thesis
    unfolding readInFile_part_def by (subst readInFile_loop_part.simps) simp
qed

section \<open>Facts about the pool\<close>

lemma blocks_single:
  assumes "content \<noteq> []" "length content \<le> bs"
  shows "blocks bs content = [content]"
proof -
  have "0 < bs" using assms by (cases content) auto
  then show ?thesis using assms by (subst blocks.simps) (simp add: blocks_Nil)
qed

lemma pool_ok_Put: "pool_ok bs p \<Longrightarrow> cap chunk = bs \<Longrightarrow> pool_ok bs (Put chunk p)"
  by (simp add: pool_ok_def Put_def)

lemma pool_ok_member: "pool_ok bs p \<Longrightarrow> x \<in> set (items p) \<Longrightarrow> cap x = bs"
  by (auto simp: pool_ok_def list_all_iff)

lemma Get_picked:
  assumes "k < length (items p)"
  shows "fst (Get_main bs (p\<lparr>picks := k # ks\<rparr>)) = items p ! k"
    and "fst (Get_part bs (p\<lparr>picks := k # ks\<rparr>)) = items p ! k"
    and "items (snd (Get_main bs (p\<lparr>picks := k # ks\<rparr>))) = take k (items p) @ drop (Suc k) (items p)"
    and "items (snd (Get_part bs (p\<lparr>picks := k # ks\<rparr>))) = take k (items p) @ drop (Suc k) (items p)"
  using assms by (simp_all add: Get_main_def Get_part_def pick_def)

lemma Get_ignored:
  assumes "length (items p) \<le> k"
  shows "fst (Get_main bs (p\<lparr>picks := k # ks\<rparr>)) = make_bytes 0 bs"
    and "fst (Get_part bs (p\<lparr>picks := k # ks\<rparr>)) = make_bytes 0 bs"
  using assms by (simp_all add: Get_main_def Get_part_def pick_def New_main_def New_part_def)

lemma Get_pooled_or_new:
  "fst (Get_main bs p) \<in> set (items p) \<or> fst (Get_main bs p) = make_bytes 0 bs"
  "fst (Get_part bs p) \<in> set (items p) \<or> fst (Get_part bs p) = make_bytes 0 bs"
  by (auto simp: Get_main_def Get_part_def pick_def New_main_def New_part_def
           split: list.splits option.splits if_splits)

lemma len_written: "len (written got d) = length d"
  by (simp add: written_def)

section \<open>Facts about the aggregates\<close>

lemma fold_temp_fields:
  "fold_temp t r = \<lparr>min_r = (if t <s min_r r then t else min_r r),
                     max_r = (if max_r r <s t then t else max_r r),
                     sum_r = sum_r r + t, count_r = count_r r + 1\<rparr>"
  by (simp add: fold_temp_def Let_def)

lemma aggregate_of_scan_chunks_part: "aggregate_of (scan_chunks_part vs store0) station = None"
  by (simp add: aggregate_of_def results_scan_chunks_part results_store0)

lemma aggregate_of_store0: "aggregate_of store0 station = None"
  by (simp add: aggregate_of_def results_store0)

section \<open>Facts about the scanner\<close>












section \<open>The shared map is never written\<close>

text \<open>
  C4. No statement of either file assigns to \<open>FinalTally.results\<close>: \<open>parseLines\<close> leaves
  the map as it found it; for a station that is absent a new \<open>StationResult\<close> is
  allocated and updated, and the station is still absent afterwards. So whenever the
  pipeline finishes the map is empty, as at the start, and for every regular file and
  positive buffer size the pipeline does finish.
\<close>

theorem results_never_written:
  "results (FinalTally (fst (parseLines_main chunk sp))) = results (FinalTally (fst sp))
   \<and> results (FinalTally (fst (parseLines_part chunk sp))) = results (FinalTally (fst sp))
   \<and> (results (FinalTally s) station = None \<longrightarrow>
        heap (tally_line station t s)
          = heap s @ [fold_temp t \<lparr>min_r = 0, max_r = 0, sum_r = 0, count_r = 0\<rparr>]
        \<and> results (FinalTally (tally_line station t s)) station = None)
   \<and> (pipeline_main BUFFER_SIZE f = Inr (s1, p1) \<longrightarrow> results (FinalTally s1) = Map.empty)
   \<and> (pipeline_part BUFFER_SIZE f = Some (Inr (s2, p2)) \<longrightarrow> results (FinalTally s2) = Map.empty)
   \<and> (0 < BUFFER_SIZE \<longrightarrow>
        (\<exists>s p. pipeline_main BUFFER_SIZE (Regular content) = Inr (s, p))
      \<and> (\<exists>s p. pipeline_part BUFFER_SIZE (Regular content) = Some (Inr (s, p))))"
proof -
  have a: "results (FinalTally s) station = None \<longrightarrow>
        heap (tally_line station t s)
          = heap s @ [fold_temp t \<lparr>min_r = 0, max_r = 0, sum_r = 0, count_r = 0\<rparr>]
        \<and> results (FinalTally (tally_line station t s)) station = None"
    by (simp add: tally_line_def)
  have b: "0 < BUFFER_SIZE \<longrightarrow>
        (\<exists>s p. pipeline_main BUFFER_SIZE (Regular content) = Inr (s, p))
      \<and> (\<exists>s p. pipeline_part BUFFER_SIZE (Regular content) = Some (Inr (s, p)))"
    using pipeline_main_regular [of BUFFER_SIZE content] pipeline_part_regular [of BUFFER_SIZE content]
    by blast
  show ?thesis
    using a b pipeline_main_results [of BUFFER_SIZE f s1 p1] pipeline_part_results [of BUFFER_SIZE f s2 p2]
    unfolding results_parseLines_main results_parseLines_part by blast
qed

theorem results_never_written_witness:
  "0 < (16 :: nat)
   \<and> results (FinalTally store0) ''Oslo'' = None
   \<and> (\<exists>p1 s2 p2. pipeline_main 16 (Regular (''Oslo;5.2'' @ [NL])) = Inr (store0, p1)
         \<and> pipeline_part 16 (Regular (''Oslo;5.2'' @ [NL])) = Some (Inr (s2, p2))
         \<and> heap s2 = [\<lparr>min_r = 0, max_r = 52, sum_r = 52, count_r = 1\<rparr>]
         \<and> results (FinalTally s2) = Map.empty)"
proof -
  let ?F = "''Oslo;5.2'' @ [NL]"
  let ?s2 = "scan_chunks_part (map cut_block (blocks 16 ?F)) store0"
  obtain p1 where p1: "pipeline_main 16 (Regular ?F) = Inr (store0, p1)"
    using pipeline_main_regular [of 16 ?F] by auto
  obtain p2 where p2: "pipeline_part 16 (Regular ?F) = Some (Inr (?s2, p2))"
    using pipeline_part_regular [of 16 ?F] by auto
  have b: "map cut_block (blocks 16 ?F) = [?F]"
    by (simp add: blocks.simps cut_block_def)
  have sc: "Scan ?F = [''Oslo;5.2'']"
    by (simp add: Scan.simps MaxScanTokenSize_def dropCR_def)
  have h: "heap (scan_loop_part [''Oslo;5.2''] store0)
             = [\<lparr>min_r = 0, max_r = 52, sum_r = 52, count_r = 1\<rparr>]"
    by code_simp
  have hs: "heap ?s2 = [\<lparr>min_r = 0, max_r = 52, sum_r = 52, count_r = 1\<rparr>]"
    by (simp only: b scan_chunks_part.simps sc h)
  have r0: "results (FinalTally store0) ''Oslo'' = None"
    by (simp add: store0_def)
  from results_never_written [of _ _ store0 "''Oslo''" _ 16 "Regular ?F" store0 p1 ?s2 p2 ?F] p2
  have "results (FinalTally ?s2) = Map.empty" by blast
  with p1 p2 hs have
    "\<exists>p1 s2 p2. pipeline_main 16 (Regular ?F) = Inr (store0, p1)
         \<and> pipeline_part 16 (Regular ?F) = Some (Inr (s2, p2))
         \<and> heap s2 = [\<lparr>min_r = 0, max_r = 52, sum_r = 52, count_r = 1\<rparr>]
         \<and> results (FinalTally s2) = Map.empty"
    by blast
  with r0 show ?thesis by simp
qed


section \<open>End of file\<close>

text \<open>
  C8. When the read reports \<open>io.EOF\<close> the iteration leaves the loop without sending
  anything, whatever the read returned besides; at the end of a regular file the loop
  therefore closes the channel with exactly the chunks sent before, and the bytes the
  fragment holds at that moment are not among them. An empty file yields no chunk, and
  the pipeline ends with the store it started with: no \<open>StationResult\<close>, an empty map.
\<close>

theorem end_of_file_closes_channel:
  "after_read_main clone r (n, io_EOF, buf, f1) p = Break p
   \<and> after_read_part clone r (n, io_EOF, buf, f1) p = Break p
   \<and> (fragLength r < length (buffer r) \<longrightarrow>
        readInFile_loop_main BUFFER_SIZE r (Regular []) p out = Closed out (snd (Get_main BUFFER_SIZE p)))
   \<and> (fragLength r < length (buffer r) \<and> len (fragment r) < length (buffer r) \<longrightarrow>
        readInFile_loop_part BUFFER_SIZE r (Regular []) p out
          = Some (Closed out (snd (Get_part BUFFER_SIZE p))))
   \<and> (0 < BUFFER_SIZE \<longrightarrow>
        readInFile_main BUFFER_SIZE (Regular []) BufferPool = Closed [] \<lparr>items = [], BuffersAllocated = 1, picks = []\<rparr>
      \<and> readInFile_part BUFFER_SIZE (Regular []) BufferPool = Some (Closed [] BufferPool)
      \<and> pipeline_main BUFFER_SIZE (Regular []) = Inr (store0, \<lparr>items = [], BuffersAllocated = 1, picks = []\<rparr>)
      \<and> pipeline_part BUFFER_SIZE (Regular []) = Some (Inr (store0, BufferPool)))"
proof -
  have a: "fragLength r < length (buffer r) \<longrightarrow>
        readInFile_loop_main BUFFER_SIZE r (Regular []) p out = Closed out (snd (Get_main BUFFER_SIZE p))"
    by (subst readInFile_loop_main.simps) (simp add: iter_main_eof_any)
  have b: "fragLength r < length (buffer r) \<and> len (fragment r) < length (buffer r) \<longrightarrow>
        readInFile_loop_part BUFFER_SIZE r (Regular []) p out
          = Some (Closed out (snd (Get_part BUFFER_SIZE p)))"
    by (subst readInFile_loop_part.simps) (simp add: iter_part_eof_any)
  have c: "0 < BUFFER_SIZE \<longrightarrow>
        readInFile_main BUFFER_SIZE (Regular []) BufferPool = Closed [] \<lparr>items = [], BuffersAllocated = 1, picks = []\<rparr>
      \<and> readInFile_part BUFFER_SIZE (Regular []) BufferPool = Some (Closed [] BufferPool)
      \<and> pipeline_main BUFFER_SIZE (Regular []) = Inr (store0, \<lparr>items = [], BuffersAllocated = 1, picks = []\<rparr>)
      \<and> pipeline_part BUFFER_SIZE (Regular []) = Some (Inr (store0, BufferPool))"
    by (simp add: readInFile_main_fresh readInFile_part_fresh pipeline_main_fresh pipeline_part_fresh
                  blocks_Nil)
       (simp add: BufferPool_def)
  show ?thesis using a b c
    by (simp add: after_read_main_def after_read_part_def)
qed

theorem end_of_file_closes_channel_witness:
  "(0 :: nat) < length (replicate 8 (CHR 0x00)) \<and> (3 :: nat) < length (replicate 8 (CHR 0x00)) \<and> 0 < (8 :: nat)
   \<and> readInFile_loop_part 8
        \<lparr>buffer = replicate 8 (CHR 0x00), fragment = \<lparr>arr = ''b;2'', len = 3\<rparr>, fragLength = 0\<rparr>
        (Regular []) BufferPool [\<lparr>arr = ''a;1'' @ [NL], len = 4\<rparr>]
       = Some (Closed [\<lparr>arr = ''a;1'' @ [NL], len = 4\<rparr>] BufferPool)
   \<and> readInFile_loop_main 8
        \<lparr>buffer = replicate 8 (CHR 0x00), fragment = \<lparr>arr = ''b;2'', len = 3\<rparr>, fragLength = 0\<rparr>
        (Regular []) BufferPool [\<lparr>arr = ''a;1'' @ [NL], len = 4\<rparr>]
       = Closed [\<lparr>arr = ''a;1'' @ [NL], len = 4\<rparr>] \<lparr>items = [], BuffersAllocated = 1, picks = []\<rparr>
   \<and> pipeline_part 8 (Regular []) = Some (Inr (store0, BufferPool))"
  using end_of_file_closes_channel
    [where r = "\<lparr>buffer = replicate 8 (CHR 0x00), fragment = \<lparr>arr = ''b;2'', len = 3\<rparr>, fragLength = 0\<rparr>"
       and BUFFER_SIZE = 8 and p = BufferPool and out = "[\<lparr>arr = ''a;1'' @ [NL], len = 4\<rparr>]"]
  by (simp add: Get_part_fresh Get_main_fresh idle_BufferPool) (simp add: BufferPool_def)

section \<open>The index of the newline test\<close>

text \<open>
  C10. With a read that did not report \<open>io.EOF\<close> and stayed inside the buffer, the test
  \<open>buffer[n-1]\<close> of \<open>main.go\<close> panics with index \<open>-1\<close> exactly when the read delivered
  no byte, and the test \<open>buffer[(fragLength+n)-1]\<close> of the other file exactly when
  \<open>fragLength + n = 0\<close>; there \<open>fragLength\<close> is 0 in every state the loop reaches, since an
  iteration that sends a chunk keeps it so. A directory opened as the input (its read
  fails with no bytes and an error other than \<open>io.EOF\<close>) and a buffer of size 0 (the read
  returns no bytes and a nil error) stop both readers with that panic before any chunk
  is sent, while on a regular file with a positive buffer size every read delivers a
  byte or reports \<open>io.EOF\<close>, and both readers return with the channel closed.
\<close>

theorem newline_check_needs_a_byte:
  "(err \<noteq> io_EOF \<and> n \<le> length buf \<longrightarrow>
      (after_read_main clone r (n, err, buf, g) p = Panicked (IndexOutOfRange (- 1))) = (n = 0))
   \<and> (err \<noteq> io_EOF \<and> fragLength r + n \<le> length buf \<longrightarrow>
      (after_read_part clone r (n, err, buf, g) p = Panicked (IndexOutOfRange (- 1)))
        = (fragLength r + n = 0))
   \<and> (reader_ok BUFFER_SIZE r \<and> iter_part BUFFER_SIZE r f p = Emitted c r' f' p' \<longrightarrow>
        reader_ok BUFFER_SIZE r')
   \<and> readInFile_main BUFFER_SIZE Directory p = Crashed (IndexOutOfRange (- 1)) []
   \<and> readInFile_part BUFFER_SIZE Directory p = Some (Crashed (IndexOutOfRange (- 1)) [])
   \<and> readInFile_main 0 f p = Crashed (IndexOutOfRange (- 1)) []
   \<and> readInFile_part 0 f p = Some (Crashed (IndexOutOfRange (- 1)) [])
   \<and> (0 < BUFFER_SIZE \<longrightarrow>
        (\<exists>cs p'. readInFile_main BUFFER_SIZE (Regular content) BufferPool = Closed cs p')
      \<and> (\<exists>cs p'. readInFile_part BUFFER_SIZE (Regular content) BufferPool = Some (Closed cs p')))"
proof -
  have d: "readInFile_main BUFFER_SIZE Directory p = Crashed (IndexOutOfRange (- 1)) []"
          "readInFile_part BUFFER_SIZE Directory p = Some (Crashed (IndexOutOfRange (- 1)) [])"
    by (rule readInFile_main_no_bytes readInFile_part_no_bytes, rule file_Read_Directory, simp)+
  have z: "readInFile_main 0 f p = Crashed (IndexOutOfRange (- 1)) []"
          "readInFile_part 0 f p = Some (Crashed (IndexOutOfRange (- 1)) [])"
    by (rule readInFile_main_no_bytes readInFile_part_no_bytes, rule file_Read_zero, simp)+
  have t: "0 < BUFFER_SIZE \<longrightarrow>
        (\<exists>cs p'. readInFile_main BUFFER_SIZE (Regular content) BufferPool = Closed cs p')
      \<and> (\<exists>cs p'. readInFile_part BUFFER_SIZE (Regular content) BufferPool = Some (Closed cs p'))"
    by (simp add: readInFile_main_fresh readInFile_part_fresh)
  have a: "err \<noteq> io_EOF \<and> n \<le> length buf \<longrightarrow>
      (after_read_main clone r (n, err, buf, g) p = Panicked (IndexOutOfRange (- 1))) = (n = 0)"
    using after_read_main_panic [of err n buf clone r g p] by simp
  have b: "err \<noteq> io_EOF \<and> fragLength r + n \<le> length buf \<longrightarrow>
      (after_read_part clone r (n, err, buf, g) p = Panicked (IndexOutOfRange (- 1)))
        = (fragLength r + n = 0)"
    using after_read_part_panic [of err r n buf clone g p] by simp
  have k: "reader_ok BUFFER_SIZE r \<and> iter_part BUFFER_SIZE r f p = Emitted c r' f' p' \<longrightarrow>
        reader_ok BUFFER_SIZE r'"
    using iter_part_keeps_ok [of BUFFER_SIZE r f p c r' f' p'] by simp
  show ?thesis
    by (intro conjI a b k d z t)
qed


theorem newline_check_needs_a_byte_witness:
  "EISDIR \<noteq> io_EOF \<and> (0 :: nat) \<le> length (replicate 8 (CHR 0x00))
   \<and> after_read_main (make_bytes 0 8)
        \<lparr>buffer = replicate 8 (CHR 0x00), fragment = make_bytes 0 0, fragLength = 0\<rparr>
        (0, EISDIR, replicate 8 (CHR 0x00), Directory) BufferPool
       = Panicked (IndexOutOfRange (- 1))
   \<and> after_read_part (make_bytes 0 8)
        \<lparr>buffer = replicate 8 (CHR 0x00), fragment = make_bytes 0 0, fragLength = 0\<rparr>
        (0, EISDIR, replicate 8 (CHR 0x00), Directory) BufferPool
       = Panicked (IndexOutOfRange (- 1))
   \<and> reader_ok 8 \<lparr>buffer = replicate 8 (CHR 0x00), fragment = make_bytes 0 0, fragLength = 0\<rparr>
   \<and> (\<exists>r'. iter_part 8 \<lparr>buffer = replicate 8 (CHR 0x00), fragment = make_bytes 0 0, fragLength = 0\<rparr>
              (Regular (''a;1'' @ [NL])) BufferPool
             = Emitted (written (make_bytes 0 8) (''a;1'' @ [NL])) r' (Regular []) BufferPool
          \<and> reader_ok 8 r')
   \<and> (0 :: nat) < 8
   \<and> (\<exists>cs p'. readInFile_part 8 (Regular (''a;1'' @ [NL])) BufferPool = Some (Closed cs p'))"
proof -
  let ?r = "\<lparr>buffer = replicate 8 (CHR 0x00), fragment = make_bytes 0 0, fragLength = 0\<rparr>"
  let ?F = "''a;1'' @ [NL]"
  note inst = newline_check_needs_a_byte
    [where err = EISDIR and n = 0 and buf = "replicate 8 (CHR 0x00)" and clone = "make_bytes 0 8"
       and r = ?r and g = Directory and p = BufferPool and BUFFER_SIZE = 8 and f = "Regular ?F"
       and content = ?F]
  have ok: "reader_ok 8 ?r" by (rule reader_part_initial)
  have e: "\<exists>r'. iter_part 8 ?r (Regular ?F) BufferPool
             = Emitted (written (fst (Get_part 8 BufferPool)) (cut_block (take 8 ?F))) r'
                 (Regular (drop 8 ?F)) (snd (Get_part 8 BufferPool))
           \<and> reader_ok 8 r'"
    by (rule iter_part_regular) (simp_all add: ok pool_ok_BufferPool)
  have g: "Get_part 8 BufferPool = (make_bytes 0 8, BufferPool)"
    by (simp add: Get_part_fresh idle_BufferPool)
  have cb: "cut_block (take 8 ?F) = ?F" "drop 8 ?F = []"
    by (simp_all add: cut_block_def)
  from e obtain r' where
    it: "iter_part 8 ?r (Regular ?F) BufferPool
           = Emitted (written (make_bytes 0 8) ?F) r' (Regular []) BufferPool"
    unfolding g cb fst_conv snd_conv by blast
  from inst [where c = "written (make_bytes 0 8) ?F" and r' = r' and f' = "Regular []" and p' = BufferPool] ok it
  have r': "reader_ok 8 r'" by blast
  have main: "after_read_main (make_bytes 0 8) ?r (0, EISDIR, replicate 8 (CHR 0x00), Directory) BufferPool
                = Panicked (IndexOutOfRange (- 1))"
    using inst by simp
  have part: "after_read_part (make_bytes 0 8) ?r (0, EISDIR, replicate 8 (CHR 0x00), Directory) BufferPool
                = Panicked (IndexOutOfRange (- 1))"
    using inst by simp
  have tot: "\<exists>cs p'. readInFile_part 8 (Regular ?F) BufferPool = Some (Closed cs p')"
    using inst by simp
  from it r' have "\<exists>r'. iter_part 8 ?r (Regular ?F) BufferPool
             = Emitted (written (make_bytes 0 8) ?F) r' (Regular []) BufferPool \<and> reader_ok 8 r'"
    by blast
  with ok main part tot show ?thesis by simp
qed

section \<open>The temperature parser\<close>

text \<open>
  C3. The loop of \<open>main.go\<close> does not compute ten times the temperature: for the line
  \<open>Oslo;5.2\<close> it returns 1030 and for \<open>Oslo;-1.0\<close> it returns -520, where the text stands
  for 52 and -10. It multiplies the byte code of every character by \<open>10 ^ 0\<close>, which in Go
  is the exclusive or and equals 10, and after negating at \<open>-\<close> it adds that byte too. The
  loop of the other file returns 52 and -10.
\<close>

theorem parser_main_wrong_value:
  "semiColonIdx ''Oslo;5.2'' = 4
   \<and> temperature_format ''5.2'' \<and> spec_temperature ''5.2'' = 52
   \<and> stationTemp_main ''Oslo;5.2'' 4 = 1030
   \<and> stationTemp_part ''Oslo;5.2'' 4 = 52
   \<and> temperature_format ''-1.0'' \<and> spec_temperature ''-1.0'' = - 10
   \<and> sint (stationTemp_main ''Oslo;-1.0'' 4) = - 520
   \<and> sint (stationTemp_part ''Oslo;-1.0'' 4) = - 10"
  by code_simp

section \<open>The first observation of a station\<close>

text \<open>
  C2. The update of an existing \<open>StationResult\<close> is as the claim says, but a new one starts
  from zeros and is then updated, so after the first observation its minimum is the
  value only if the value is negative, and its maximum only if it is positive. For the
  file of the single line \<open>Oslo;5.2\<close> the one \<open>StationResult\<close> of the run holds minimum 0
  and maximum 52 (in \<open>main.go\<close>, which also misreads the value, a line \<open>Oslo;5.2\<close> gives
  0 and 1030).
\<close>

theorem first_observation_starts_at_zero:
  "fold_temp t \<lparr>min_r = 0, max_r = 0, sum_r = 0, count_r = 0\<rparr>
     = \<lparr>min_r = (if t <s 0 then t else 0), max_r = (if 0 <s t then t else 0), sum_r = t, count_r = 1\<rparr>
   \<and> heap (line_part ''Oslo;5.2'' store0) = [\<lparr>min_r = 0, max_r = 52, sum_r = 52, count_r = 1\<rparr>]
   \<and> heap (line_main ''Oslo;5.2'' store0) = [\<lparr>min_r = 0, max_r = 1030, sum_r = 1030, count_r = 1\<rparr>]
   \<and> pipeline_part BUFFER_SIZE_part (Regular (''Oslo;5.2'' @ [NL]))
       = Some (Inr (scan_chunks_part [''Oslo;5.2'' @ [NL]] store0,
                    \<lparr>items = [written (make_bytes 0 BUFFER_SIZE_part) (''Oslo;5.2'' @ [NL])],
                      BuffersAllocated = 0, picks = []\<rparr>))
   \<and> heap (scan_chunks_part [''Oslo;5.2'' @ [NL]] store0)
       = [\<lparr>min_r = 0, max_r = 52, sum_r = 52, count_r = 1\<rparr>]"
proof -
  let ?F = "''Oslo;5.2'' @ [NL]"
  have a: "fold_temp t \<lparr>min_r = 0, max_r = 0, sum_r = 0, count_r = 0\<rparr>
     = \<lparr>min_r = (if t <s 0 then t else 0), max_r = (if 0 <s t then t else 0), sum_r = t, count_r = 1\<rparr>"
    by (simp add: fold_temp_fields)
  have b: "heap (line_part ''Oslo;5.2'' store0) = [\<lparr>min_r = 0, max_r = 52, sum_r = 52, count_r = 1\<rparr>]"
          "heap (line_main ''Oslo;5.2'' store0) = [\<lparr>min_r = 0, max_r = 1030, sum_r = 1030, count_r = 1\<rparr>]"
    by code_simp+
  have pos: "0 < BUFFER_SIZE_part" by (simp add: BUFFER_SIZE_part_def)
  have bl: "blocks BUFFER_SIZE_part ?F = [?F]"
    by (rule blocks_single) (simp_all add: BUFFER_SIZE_part_def)
  have cb: "cut_block ?F = ?F" by (simp add: cut_block_def)
  have p: "pipeline_part BUFFER_SIZE_part (Regular ?F)
             = Some (Inr (scan_chunks_part [?F] store0,
                          \<lparr>items = [written (make_bytes 0 BUFFER_SIZE_part) ?F], BuffersAllocated = 0, picks = []\<rparr>))"
    by (simp only: pipeline_part_fresh [OF pos] bl cb list.map rev.simps append_Nil)
  have sc: "Scan ?F = [''Oslo;5.2'']"
    by (simp add: Scan.simps MaxScanTokenSize_def dropCR_def)
  have h: "heap (scan_chunks_part [?F] store0) = [\<lparr>min_r = 0, max_r = 52, sum_r = 52, count_r = 1\<rparr>]"
    using b(1) by (simp only: scan_chunks_part.simps scan_loop_part.simps sc)
  show ?thesis by (intro conjI a b p h)
qed

section \<open>The pipeline against the naive fold\<close>

text \<open>
  C1. On the file \<open>Oslo;5.2\<close>, \<open>Oslo;3.8\<close>, \<open>Bergen;-1.0\<close>, read with the buffer size of
  each file, the naive fold has for Oslo the aggregate (38, 52, 90, 2) and for Bergen
  (-10, -10, -10, 1). The pipeline of \<open>main.go\<close> ends with the store it started with,
  and the pipeline of the other file with three separate \<open>StationResult\<close> values, two of
  them for Oslo, none of which \<open>FinalTally.results\<close> points to: neither holds an
  aggregate for any station.
\<close>

theorem pipeline_keeps_no_aggregate:
  "pipeline_main BUFFER_SIZE_main (Regular (''Oslo;5.2'' @ [NL] @ ''Oslo;3.8'' @ [NL] @ ''Bergen;-1.0'' @ [NL]))
     = Inr (store0, \<lparr>items = [make_bytes 0 BUFFER_SIZE_main], BuffersAllocated = 2, picks = []\<rparr>)
   \<and> aggregate_of store0 ''Oslo'' = None
   \<and> pipeline_part BUFFER_SIZE_part (Regular (''Oslo;5.2'' @ [NL] @ ''Oslo;3.8'' @ [NL] @ ''Bergen;-1.0'' @ [NL]))
     = Some (Inr (scan_chunks_part [''Oslo;5.2'' @ [NL] @ ''Oslo;3.8'' @ [NL] @ ''Bergen;-1.0'' @ [NL]] store0,
                  \<lparr>items = [written (make_bytes 0 BUFFER_SIZE_part)
                               (''Oslo;5.2'' @ [NL] @ ''Oslo;3.8'' @ [NL] @ ''Bergen;-1.0'' @ [NL])],
                    BuffersAllocated = 0, picks = []\<rparr>))
   \<and> heap (scan_chunks_part [''Oslo;5.2'' @ [NL] @ ''Oslo;3.8'' @ [NL] @ ''Bergen;-1.0'' @ [NL]] store0)
       = [\<lparr>min_r = 0, max_r = 52, sum_r = 52, count_r = 1\<rparr>,
          \<lparr>min_r = 0, max_r = 38, sum_r = 38, count_r = 1\<rparr>,
          \<lparr>min_r = - 10, max_r = 0, sum_r = - 10, count_r = 1\<rparr>]
   \<and> aggregate_of
        (scan_chunks_part [''Oslo;5.2'' @ [NL] @ ''Oslo;3.8'' @ [NL] @ ''Bergen;-1.0'' @ [NL]] store0)
        ''Oslo'' = None
   \<and> naive_fold (file_lines (''Oslo;5.2'' @ [NL] @ ''Oslo;3.8'' @ [NL] @ ''Bergen;-1.0'' @ [NL]) [])
        Map.empty ''Oslo''
       = Some \<lparr>agg_min = 38, agg_max = 52, agg_sum = 90, agg_count = 2\<rparr>
   \<and> naive_fold (file_lines (''Oslo;5.2'' @ [NL] @ ''Oslo;3.8'' @ [NL] @ ''Bergen;-1.0'' @ [NL]) [])
        Map.empty ''Bergen''
       = Some \<lparr>agg_min = - 10, agg_max = - 10, agg_sum = - 10, agg_count = 1\<rparr>"
proof -
  let ?F = "''Oslo;5.2'' @ [NL] @ ''Oslo;3.8'' @ [NL] @ ''Bergen;-1.0'' @ [NL]"
  have posm: "0 < BUFFER_SIZE_main" by (simp add: BUFFER_SIZE_main_def)
  have posp: "0 < BUFFER_SIZE_part" by (simp add: BUFFER_SIZE_part_def)
  have blm: "blocks BUFFER_SIZE_main ?F = [?F]"
    by (rule blocks_single) (simp_all add: BUFFER_SIZE_main_def)
  have blp: "blocks BUFFER_SIZE_part ?F = [?F]"
    by (rule blocks_single) (simp_all add: BUFFER_SIZE_part_def)
  have cb: "cut_block ?F = ?F" by (simp add: cut_block_def)
  have m: "pipeline_main BUFFER_SIZE_main (Regular ?F)
             = Inr (store0, \<lparr>items = [make_bytes 0 BUFFER_SIZE_main], BuffersAllocated = 2, picks = []\<rparr>)"
    by (simp only: pipeline_main_fresh [OF posm] blm) simp
  have p: "pipeline_part BUFFER_SIZE_part (Regular ?F)
             = Some (Inr (scan_chunks_part [?F] store0,
                          \<lparr>items = [written (make_bytes 0 BUFFER_SIZE_part) ?F], BuffersAllocated = 0, picks = []\<rparr>))"
    by (simp only: pipeline_part_fresh [OF posp] blp cb list.map rev.simps append_Nil)
  have sc: "Scan ?F = [''Oslo;5.2'', ''Oslo;3.8'', ''Bergen;-1.0'']"
    by (simp add: Scan.simps MaxScanTokenSize_def dropCR_def)
  have hl: "heap (scan_loop_part [''Oslo;5.2'', ''Oslo;3.8'', ''Bergen;-1.0''] store0)
              = [\<lparr>min_r = 0, max_r = 52, sum_r = 52, count_r = 1\<rparr>,
                 \<lparr>min_r = 0, max_r = 38, sum_r = 38, count_r = 1\<rparr>,
                 \<lparr>min_r = - 10, max_r = 0, sum_r = - 10, count_r = 1\<rparr>]"
    by code_simp
  have h: "heap (scan_chunks_part [?F] store0)
              = [\<lparr>min_r = 0, max_r = 52, sum_r = 52, count_r = 1\<rparr>,
                 \<lparr>min_r = 0, max_r = 38, sum_r = 38, count_r = 1\<rparr>,
                 \<lparr>min_r = - 10, max_r = 0, sum_r = - 10, count_r = 1\<rparr>]"
    using hl by (simp only: scan_chunks_part.simps sc)
  have n: "naive_fold (file_lines ?F []) Map.empty ''Oslo''
             = Some \<lparr>agg_min = 38, agg_max = 52, agg_sum = 90, agg_count = 2\<rparr>"
          "naive_fold (file_lines ?F []) Map.empty ''Bergen''
             = Some \<lparr>agg_min = - 10, agg_max = - 10, agg_sum = - 10, agg_count = 1\<rparr>"
    by code_simp+
  show ?thesis
    by (intro conjI m p h n aggregate_of_store0 aggregate_of_scan_chunks_part)
qed

section \<open>Chunk boundaries\<close>

text \<open>
  C5. Reading the two lines \<open>a;1.0\<close> and \<open>b;2.0\<close> with a buffer of 8 bytes, the first
  read ends inside the second line. The reader of the file without the \<open>[0:0]\<close> sends
  \<open>a;1.0\<close> without its newline and then \<open>2.0\<close> with the newline: the first chunk does
  not end with a newline, the second starts inside a line, the scanner hands the worker
  the line \<open>2.0\<close>, which is no line of the file, and only one value is folded. The bytes
  from the newline on were to be kept in the fragment, which has length 0 and takes
  none. The reader of \<open>main.go\<close> sends two chunks of length 0.
\<close>

theorem chunks_cut_inside_lines:
  "readInFile_part 8 (Regular (''a;1.0'' @ [NL] @ ''b;2.0'' @ [NL])) BufferPool
     = Some (Closed [written (make_bytes 0 8) ''a;1.0'', written (make_bytes 0 8) (''2.0'' @ [NL])]
               BufferPool)
   \<and> map view [written (make_bytes 0 8) ''a;1.0'', written (make_bytes 0 8) (''2.0'' @ [NL])]
       = [''a;1.0'', ''2.0'' @ [NL]]
   \<and> last ''a;1.0'' \<noteq> NL
   \<and> Scan (''2.0'' @ [NL]) = [''2.0'']
   \<and> file_lines (''a;1.0'' @ [NL] @ ''b;2.0'' @ [NL]) [] = [''a;1.0'', ''b;2.0'']
   \<and> heap (scan_chunks_part [''a;1.0'', ''2.0'' @ [NL]] store0)
       = [\<lparr>min_r = 0, max_r = 10, sum_r = 10, count_r = 1\<rparr>]
   \<and> readInFile_main 8 (Regular (''a;1.0'' @ [NL] @ ''b;2.0'' @ [NL])) BufferPool
       = Closed [make_bytes 0 8, make_bytes 0 8] \<lparr>items = [], BuffersAllocated = 3, picks = []\<rparr>
   \<and> map view [make_bytes 0 8, make_bytes 0 8] = [[], []]"
proof -
  let ?F = "''a;1.0'' @ [NL] @ ''b;2.0'' @ [NL]"
  have bl: "blocks 8 ?F = [''a;1.0'' @ [NL] @ ''b;'', ''2.0'' @ [NL]]"
    by (simp add: blocks.simps)
  have cb: "cut_block (''a;1.0'' @ [NL] @ ''b;'') = ''a;1.0''" "cut_block (''2.0'' @ [NL]) = ''2.0'' @ [NL]"
    by (simp_all add: cut_block_def)
  have p: "readInFile_part 8 (Regular ?F) BufferPool
     = Some (Closed [written (make_bytes 0 8) ''a;1.0'', written (make_bytes 0 8) (''2.0'' @ [NL])]
               BufferPool)"
    by (simp only: readInFile_part_fresh [of 8, simplified] bl cb list.map)
  have m: "readInFile_main 8 (Regular ?F) BufferPool
       = Closed [make_bytes 0 8, make_bytes 0 8] \<lparr>items = [], BuffersAllocated = 3, picks = []\<rparr>"
    by (simp only: readInFile_main_fresh [of 8, simplified] bl) simp
  have v: "map view [written (make_bytes 0 8) ''a;1.0'', written (make_bytes 0 8) (''2.0'' @ [NL])]
       = [''a;1.0'', ''2.0'' @ [NL]]"
    by (simp add: view_written_fresh)
  have vm: "map view [make_bytes 0 8, make_bytes 0 8] = [[], []]"
    by (simp add: view_def make_bytes_def)
  have l: "last ''a;1.0'' \<noteq> NL" by simp
  have sc: "Scan (''2.0'' @ [NL]) = [''2.0'']" "Scan ''a;1.0'' = [''a;1.0'']"
    by (simp_all add: Scan.simps MaxScanTokenSize_def dropCR_def)
  have fl: "file_lines ?F [] = [''a;1.0'', ''b;2.0'']" by simp
  have hl: "heap (scan_loop_part [''2.0''] (scan_loop_part [''a;1.0''] store0))
              = [\<lparr>min_r = 0, max_r = 10, sum_r = 10, count_r = 1\<rparr>]"
    by code_simp
  have h: "heap (scan_chunks_part [''a;1.0'', ''2.0'' @ [NL]] store0)
       = [\<lparr>min_r = 0, max_r = 10, sum_r = 10, count_r = 1\<rparr>]"
    using hl by (simp only: scan_chunks_part.simps sc)
  show ?thesis
    by (intro conjI p v l sc(1) fl h m vm)
qed

text \<open>
  C6. For the same file and buffer the chunks of the file without the \<open>[0:0]\<close> add up to
  \<open>a;1.02.0\<close> and a newline, which is not the file. With the buffer sizes of the two
  files: \<open>main.go\<close> sends one chunk of length 0 for that file, and the other file sends
  \<open>a;1.0\<close> for the two lines \<open>a;1.0\<close> and \<open>b;2.0\<close> when the last has no newline, dropping
  the newline before the final fragment as well.
\<close>

theorem chunks_do_not_add_up:
  "map_option chunks_of (readInFile_part 8 (Regular (''a;1.0'' @ [NL] @ ''b;2.0'' @ [NL])) BufferPool)
     = Some [''a;1.0'', ''2.0'' @ [NL]]
   \<and> \<not> reproduces (''a;1.0'' @ [NL] @ ''b;2.0'' @ [NL]) (concat [''a;1.0'', ''2.0'' @ [NL]])
   \<and> chunks_of (readInFile_main BUFFER_SIZE_main (Regular (''a;1.0'' @ [NL] @ ''b;2.0'' @ [NL])) BufferPool)
       = [[]]
   \<and> \<not> reproduces (''a;1.0'' @ [NL] @ ''b;2.0'' @ [NL]) (concat [[]])
   \<and> map_option chunks_of (readInFile_part BUFFER_SIZE_part (Regular (''a;1.0'' @ [NL] @ ''b;2.0'')) BufferPool)
       = Some [''a;1.0'']
   \<and> without_last_fragment (''a;1.0'' @ [NL] @ ''b;2.0'') = ''a;1.0'' @ [NL]
   \<and> \<not> reproduces (''a;1.0'' @ [NL] @ ''b;2.0'') (concat [''a;1.0''])"
proof -
  let ?F = "''a;1.0'' @ [NL] @ ''b;2.0'' @ [NL]"
  let ?G = "''a;1.0'' @ [NL] @ ''b;2.0''"
  have bl: "blocks 8 ?F = [''a;1.0'' @ [NL] @ ''b;'', ''2.0'' @ [NL]]"
    by (simp add: blocks.simps)
  have cb: "cut_block (''a;1.0'' @ [NL] @ ''b;'') = ''a;1.0''" "cut_block (''2.0'' @ [NL]) = ''2.0'' @ [NL]"
           "cut_block ?G = ''a;1.0''"
    by (simp_all add: cut_block_def)
  have a: "map_option chunks_of (readInFile_part 8 (Regular ?F) BufferPool) = Some [''a;1.0'', ''2.0'' @ [NL]]"
    by (simp only: readInFile_part_fresh [of 8, simplified] option.map chunks_of_def outcome.case
                   bl cb list.map)
       (simp add: view_written_fresh)
  have posm: "0 < BUFFER_SIZE_main" by (simp add: BUFFER_SIZE_main_def)
  have posp: "0 < BUFFER_SIZE_part" by (simp add: BUFFER_SIZE_part_def)
  have blm: "blocks BUFFER_SIZE_main ?F = [?F]"
    by (rule blocks_single) (simp_all add: BUFFER_SIZE_main_def)
  have blp: "blocks BUFFER_SIZE_part ?G = [?G]"
    by (rule blocks_single) (simp_all add: BUFFER_SIZE_part_def)
  have b: "chunks_of (readInFile_main BUFFER_SIZE_main (Regular ?F) BufferPool) = [[]]"
    by (simp only: readInFile_main_fresh [OF posm] chunks_of_def outcome.case blm list.map)
       (simp add: view_def make_bytes_def)
  have c: "map_option chunks_of (readInFile_part BUFFER_SIZE_part (Regular ?G) BufferPool) = Some [''a;1.0'']"
    by (simp only: readInFile_part_fresh [OF posp] option.map chunks_of_def outcome.case
                   blp cb list.map)
       (simp add: view_written_fresh BUFFER_SIZE_part_def)
  have r: "\<not> reproduces ?F (concat [''a;1.0'', ''2.0'' @ [NL]])"
          "\<not> reproduces ?F (concat [[]])"
          "without_last_fragment ?G = ''a;1.0'' @ [NL]"
          "\<not> reproduces ?G (concat [''a;1.0''])"
    by (simp_all add: reproduces_def without_last_fragment_def)
  show ?thesis
    by (intro conjI a b c r)
qed

section \<open>Malformed lines\<close>




section \<open>Buffers handed out by the pool\<close>

text \<open>
  C9, as stated, fails in the file without the \<open>[0:0]\<close>: there \<open>Get\<close> returns a reused
  buffer with the length it had when \<open>parseLines\<close> put it back. After the run on a file
  of one line, at the buffer size of that file, the pool holds the chunk of that run, and
  a \<open>Get\<close> that takes it yields a view of the 9 bytes of the chunk, not a zero-length one.
\<close>

theorem reused_buffer_keeps_its_length:
  "pipeline_part BUFFER_SIZE_part (Regular (''Oslo;5.2'' @ [NL]))
     = Some (Inr (scan_chunks_part [''Oslo;5.2'' @ [NL]] store0,
                  \<lparr>items = [written (make_bytes 0 BUFFER_SIZE_part) (''Oslo;5.2'' @ [NL])],
                    BuffersAllocated = 0, picks = []\<rparr>))
   \<and> view (fst (Get_part BUFFER_SIZE_part
                   \<lparr>items = [written (make_bytes 0 BUFFER_SIZE_part) (''Oslo;5.2'' @ [NL])],
                     BuffersAllocated = 0, picks = []\<rparr>))
       = ''Oslo;5.2'' @ [NL]
   \<and> len (fst (Get_part BUFFER_SIZE_part
                   \<lparr>items = [written (make_bytes 0 BUFFER_SIZE_part) (''Oslo;5.2'' @ [NL])],
                     BuffersAllocated = 0, picks = []\<rparr>))
       = 9"
proof -
  let ?F = "''Oslo;5.2'' @ [NL]"
  have pos: "0 < BUFFER_SIZE_part" by (simp add: BUFFER_SIZE_part_def)
  have b: "blocks BUFFER_SIZE_part ?F = [?F]"
    by (rule blocks_single) (simp_all add: BUFFER_SIZE_part_def)
  have cb: "cut_block ?F = ?F" by (simp add: cut_block_def)
  have v: "view (written (make_bytes 0 BUFFER_SIZE_part) ?F) = ?F"
    by (rule view_written_fresh) (simp add: BUFFER_SIZE_part_def)
  have p: "pipeline_part BUFFER_SIZE_part (Regular ?F)
             = Some (Inr (scan_chunks_part [?F] store0,
                          \<lparr>items = [written (make_bytes 0 BUFFER_SIZE_part) ?F],
                            BuffersAllocated = 0, picks = []\<rparr>))"
    by (simp only: pipeline_part_fresh [OF pos] b cb list.map rev.simps append_Nil)
  have g: "fst (Get_part BUFFER_SIZE_part
                  \<lparr>items = [written (make_bytes 0 BUFFER_SIZE_part) ?F], BuffersAllocated = 0, picks = []\<rparr>)
             = written (make_bytes 0 BUFFER_SIZE_part) ?F"
    by (simp add: Get_part_def pick_def)
  have l: "len (written (make_bytes 0 BUFFER_SIZE_part) ?F) = 9"
    by (simp add: written_def)
  show ?thesis
    by (simp only: p g v l simp_thms)
qed

text \<open>
  C9, amended. Every buffer \<open>Get\<close> returns has capacity \<open>BUFFER_SIZE\<close>, in a pool that
  was filled by this program. It is one of the pooled buffers, whichever the pool chooses,
  with the length and the bytes it was put back with, or a new one, which has length zero.
  \<open>parseLines\<close> puts the chunk back as it is. \<open>main.go\<close> reslices the buffer it got to
  \<open>[0:0]\<close> and sends that; the other file reslices it to the length of the new chunk
  before the copy, so that the chunk sent holds all the bytes read up to the last newline,
  whatever length the buffer came back with. Every chunk the readers send has capacity
  \<open>BUFFER_SIZE\<close>, which keeps the pool that way.
\<close>

theorem acquire_gives_full_capacity:
  "(pool_ok BUFFER_SIZE p \<longrightarrow>
      cap (fst (Get_main BUFFER_SIZE p)) = BUFFER_SIZE
    \<and> pool_ok BUFFER_SIZE (snd (Get_main BUFFER_SIZE p))
    \<and> cap (fst (Get_part BUFFER_SIZE p)) = BUFFER_SIZE
    \<and> pool_ok BUFFER_SIZE (snd (Get_part BUFFER_SIZE p)))
   \<and> (pool_ok BUFFER_SIZE p \<and> x \<in> set (items p) \<longrightarrow> cap x = BUFFER_SIZE)
   \<and> (fst (Get_main BUFFER_SIZE p) \<in> set (items p) \<or> fst (Get_main BUFFER_SIZE p) = make_bytes 0 BUFFER_SIZE)
   \<and> (fst (Get_part BUFFER_SIZE p) \<in> set (items p) \<or> fst (Get_part BUFFER_SIZE p) = make_bytes 0 BUFFER_SIZE)
   \<and> (k < length (items p) \<longrightarrow>
        fst (Get_main BUFFER_SIZE (p\<lparr>picks := k # ks\<rparr>)) = items p ! k
      \<and> fst (Get_part BUFFER_SIZE (p\<lparr>picks := k # ks\<rparr>)) = items p ! k
      \<and> items (snd (Get_main BUFFER_SIZE (p\<lparr>picks := k # ks\<rparr>)))
          = take k (items p) @ drop (Suc k) (items p)
      \<and> items (snd (Get_part BUFFER_SIZE (p\<lparr>picks := k # ks\<rparr>)))
          = take k (items p) @ drop (Suc k) (items p))
   \<and> (length (items p) \<le> j \<longrightarrow>
        fst (Get_main BUFFER_SIZE (p\<lparr>picks := j # js\<rparr>)) = make_bytes 0 BUFFER_SIZE
      \<and> fst (Get_part BUFFER_SIZE (p\<lparr>picks := j # js\<rparr>)) = make_bytes 0 BUFFER_SIZE)
   \<and> cap (make_bytes 0 BUFFER_SIZE) = BUFFER_SIZE \<and> view (make_bytes 0 BUFFER_SIZE) = []
   \<and> items (Put chunk p) = chunk # items p
   \<and> (pool_ok BUFFER_SIZE p \<and> cap chunk = BUFFER_SIZE \<longrightarrow> pool_ok BUFFER_SIZE (Put chunk p))
   \<and> snd (parseLines_main chunk sp) = Put chunk (snd sp)
   \<and> snd (parseLines_part chunk sp) = Put chunk (snd sp)
   \<and> (0 < BUFFER_SIZE \<and> fragLength r = 0 \<and> length (buffer r) = BUFFER_SIZE \<and> content \<noteq> [] \<longrightarrow>
        (\<exists>r'. iter_main BUFFER_SIZE r (Regular content) p
                = Emitted ((fst (Get_main BUFFER_SIZE p))\<lparr>len := 0\<rparr>) r'
                    (Regular (drop BUFFER_SIZE content)) (snd (Get_main BUFFER_SIZE p))))
   \<and> (0 < BUFFER_SIZE \<and> reader_ok BUFFER_SIZE r \<and> content \<noteq> [] \<and> pool_ok BUFFER_SIZE p \<longrightarrow>
        (\<exists>r'. iter_part BUFFER_SIZE r (Regular content) p
                = Emitted (written (fst (Get_part BUFFER_SIZE p)) (cut_block (take BUFFER_SIZE content))) r'
                    (Regular (drop BUFFER_SIZE content)) (snd (Get_part BUFFER_SIZE p)))
      \<and> len (written (fst (Get_part BUFFER_SIZE p)) (cut_block (take BUFFER_SIZE content)))
          = length (cut_block (take BUFFER_SIZE content))
      \<and> view (written (fst (Get_part BUFFER_SIZE p)) (cut_block (take BUFFER_SIZE content)))
          = cut_block (take BUFFER_SIZE content)
      \<and> cap (written (fst (Get_part BUFFER_SIZE p)) (cut_block (take BUFFER_SIZE content)))
          = BUFFER_SIZE)
   \<and> (0 < BUFFER_SIZE \<and> pool_ok BUFFER_SIZE p \<longrightarrow>
        (\<exists>cs p'. readInFile_main BUFFER_SIZE (Regular content) p = Closed cs p'
                  \<and> list_all (\<lambda>c. cap c = BUFFER_SIZE) cs \<and> pool_ok BUFFER_SIZE p')
      \<and> (\<exists>cs p'. readInFile_part BUFFER_SIZE (Regular content) p = Some (Closed cs p')
                  \<and> list_all (\<lambda>c. cap c = BUFFER_SIZE) cs \<and> pool_ok BUFFER_SIZE p'))"
proof -
  have a: "pool_ok BUFFER_SIZE p \<longrightarrow>
      cap (fst (Get_main BUFFER_SIZE p)) = BUFFER_SIZE
    \<and> pool_ok BUFFER_SIZE (snd (Get_main BUFFER_SIZE p))
    \<and> cap (fst (Get_part BUFFER_SIZE p)) = BUFFER_SIZE
    \<and> pool_ok BUFFER_SIZE (snd (Get_part BUFFER_SIZE p))"
    using cap_Get_main [of BUFFER_SIZE p] cap_Get_part [of BUFFER_SIZE p] by simp
  have b: "pool_ok BUFFER_SIZE p \<and> x \<in> set (items p) \<longrightarrow> cap x = BUFFER_SIZE"
    using pool_ok_member [of BUFFER_SIZE p x] by simp
  have c: "k < length (items p) \<longrightarrow>
        fst (Get_main BUFFER_SIZE (p\<lparr>picks := k # ks\<rparr>)) = items p ! k
      \<and> fst (Get_part BUFFER_SIZE (p\<lparr>picks := k # ks\<rparr>)) = items p ! k
      \<and> items (snd (Get_main BUFFER_SIZE (p\<lparr>picks := k # ks\<rparr>)))
          = take k (items p) @ drop (Suc k) (items p)
      \<and> items (snd (Get_part BUFFER_SIZE (p\<lparr>picks := k # ks\<rparr>)))
          = take k (items p) @ drop (Suc k) (items p)"
    using Get_picked [of k p BUFFER_SIZE ks] by simp
  have c2: "length (items p) \<le> j \<longrightarrow>
        fst (Get_main BUFFER_SIZE (p\<lparr>picks := j # js\<rparr>)) = make_bytes 0 BUFFER_SIZE
      \<and> fst (Get_part BUFFER_SIZE (p\<lparr>picks := j # js\<rparr>)) = make_bytes 0 BUFFER_SIZE"
    using Get_ignored [of p j BUFFER_SIZE js] by simp
  have n: "cap (make_bytes 0 BUFFER_SIZE) = BUFFER_SIZE" "view (make_bytes 0 BUFFER_SIZE) = []"
    by (simp_all add: cap_def view_def make_bytes_def)
  have pt: "items (Put chunk p) = chunk # items p" by (simp add: Put_def)
  have d: "pool_ok BUFFER_SIZE p \<and> cap chunk = BUFFER_SIZE \<longrightarrow> pool_ok BUFFER_SIZE (Put chunk p)"
    using pool_ok_Put [of BUFFER_SIZE p chunk] by simp
  have e: "snd (parseLines_main chunk sp) = Put chunk (snd sp)"
          "snd (parseLines_part chunk sp) = Put chunk (snd sp)"
    by (simp_all add: parseLines_main_def parseLines_part_def)
  have im: "0 < BUFFER_SIZE \<and> fragLength r = 0 \<and> length (buffer r) = BUFFER_SIZE \<and> content \<noteq> [] \<longrightarrow>
        (\<exists>r'. iter_main BUFFER_SIZE r (Regular content) p
                = Emitted ((fst (Get_main BUFFER_SIZE p))\<lparr>len := 0\<rparr>) r'
                    (Regular (drop BUFFER_SIZE content)) (snd (Get_main BUFFER_SIZE p)))"
    using iter_main_regular [of BUFFER_SIZE r content p] by blast
  have ip: "0 < BUFFER_SIZE \<and> reader_ok BUFFER_SIZE r \<and> content \<noteq> [] \<and> pool_ok BUFFER_SIZE p \<longrightarrow>
        (\<exists>r'. iter_part BUFFER_SIZE r (Regular content) p
                = Emitted (written (fst (Get_part BUFFER_SIZE p)) (cut_block (take BUFFER_SIZE content))) r'
                    (Regular (drop BUFFER_SIZE content)) (snd (Get_part BUFFER_SIZE p)))
      \<and> len (written (fst (Get_part BUFFER_SIZE p)) (cut_block (take BUFFER_SIZE content)))
          = length (cut_block (take BUFFER_SIZE content))
      \<and> view (written (fst (Get_part BUFFER_SIZE p)) (cut_block (take BUFFER_SIZE content)))
          = cut_block (take BUFFER_SIZE content)
      \<and> cap (written (fst (Get_part BUFFER_SIZE p)) (cut_block (take BUFFER_SIZE content)))
          = BUFFER_SIZE"
  proof (intro impI, elim conjE)
    assume h: "0 < BUFFER_SIZE" "reader_ok BUFFER_SIZE r" "content \<noteq> []" "pool_ok BUFFER_SIZE p"
    have cg: "cap (fst (Get_part BUFFER_SIZE p)) = BUFFER_SIZE"
      using cap_Get_part [OF h(4)] by simp
    have le: "length (cut_block (take BUFFER_SIZE content)) \<le> cap (fst (Get_part BUFFER_SIZE p))"
      using length_cut_block [of "take BUFFER_SIZE content"] cg by simp
    from iter_part_regular [OF h(1,2,3,4)] view_written [OF le] cg
    show "(\<exists>r'. iter_part BUFFER_SIZE r (Regular content) p
                = Emitted (written (fst (Get_part BUFFER_SIZE p)) (cut_block (take BUFFER_SIZE content))) r'
                    (Regular (drop BUFFER_SIZE content)) (snd (Get_part BUFFER_SIZE p)))
      \<and> len (written (fst (Get_part BUFFER_SIZE p)) (cut_block (take BUFFER_SIZE content)))
          = length (cut_block (take BUFFER_SIZE content))
      \<and> view (written (fst (Get_part BUFFER_SIZE p)) (cut_block (take BUFFER_SIZE content)))
          = cut_block (take BUFFER_SIZE content)
      \<and> cap (written (fst (Get_part BUFFER_SIZE p)) (cut_block (take BUFFER_SIZE content)))
          = BUFFER_SIZE"
      by (auto simp: len_written)
  qed
  have f: "0 < BUFFER_SIZE \<and> pool_ok BUFFER_SIZE p \<longrightarrow>
        (\<exists>cs p'. readInFile_main BUFFER_SIZE (Regular content) p = Closed cs p'
                  \<and> list_all (\<lambda>c. cap c = BUFFER_SIZE) cs \<and> pool_ok BUFFER_SIZE p')
      \<and> (\<exists>cs p'. readInFile_part BUFFER_SIZE (Regular content) p = Some (Closed cs p')
                  \<and> list_all (\<lambda>c. cap c = BUFFER_SIZE) cs \<and> pool_ok BUFFER_SIZE p')"
    using readInFile_main_regular [of BUFFER_SIZE content p]
          readInFile_part_regular [of BUFFER_SIZE p content]
    by blast
  show ?thesis
    by (intro conjI a b c c2 n pt d e im ip f Get_pooled_or_new)
qed

theorem acquire_gives_full_capacity_witness:
  "pool_ok BUFFER_SIZE_part
      \<lparr>items = [written (make_bytes 0 BUFFER_SIZE_part) ''de'',
                written (make_bytes 0 BUFFER_SIZE_part) ''abc''],
        BuffersAllocated = 2, picks = [1]\<rparr>
   \<and> written (make_bytes 0 BUFFER_SIZE_part) ''abc''
       \<in> set [written (make_bytes 0 BUFFER_SIZE_part) ''de'',
               written (make_bytes 0 BUFFER_SIZE_part) ''abc'']
   \<and> (1::nat) < length [written (make_bytes 0 BUFFER_SIZE_part) ''de'',
                         written (make_bytes 0 BUFFER_SIZE_part) ''abc'']
   \<and> length [written (make_bytes 0 BUFFER_SIZE_part) ''de'',
              written (make_bytes 0 BUFFER_SIZE_part) ''abc''] \<le> (2::nat)
   \<and> cap (written (make_bytes 0 BUFFER_SIZE_part) (''Oslo;5.2'' @ [NL])) = BUFFER_SIZE_part
   \<and> 0 < BUFFER_SIZE_part
   \<and> reader_ok BUFFER_SIZE_part
        \<lparr>buffer = replicate BUFFER_SIZE_part (CHR 0x00), fragment = make_bytes 0 0, fragLength = 0\<rparr>
   \<and> ''Oslo;5.2'' @ [NL] \<noteq> []
   \<and> fst (Get_part BUFFER_SIZE_part
             \<lparr>items = [written (make_bytes 0 BUFFER_SIZE_part) ''de'',
                       written (make_bytes 0 BUFFER_SIZE_part) ''abc''],
               BuffersAllocated = 2, picks = [1]\<rparr>)
       = written (make_bytes 0 BUFFER_SIZE_part) ''abc''
   \<and> len (written (make_bytes 0 BUFFER_SIZE_part) ''abc'') = 3
   \<and> fst (Get_main BUFFER_SIZE_part
             \<lparr>items = [written (make_bytes 0 BUFFER_SIZE_part) ''de'',
                       written (make_bytes 0 BUFFER_SIZE_part) ''abc''],
               BuffersAllocated = 2, picks = [2]\<rparr>)
       = make_bytes 0 BUFFER_SIZE_part
   \<and> (\<exists>r'. iter_part BUFFER_SIZE_part
               \<lparr>buffer = replicate BUFFER_SIZE_part (CHR 0x00), fragment = make_bytes 0 0, fragLength = 0\<rparr>
               (Regular (''Oslo;5.2'' @ [NL]))
               \<lparr>items = [written (make_bytes 0 BUFFER_SIZE_part) ''de'',
                         written (make_bytes 0 BUFFER_SIZE_part) ''abc''],
                 BuffersAllocated = 2, picks = [1]\<rparr>
             = Emitted (written (written (make_bytes 0 BUFFER_SIZE_part) ''abc'') (''Oslo;5.2'' @ [NL])) r'
                 (Regular [])
                 \<lparr>items = [written (make_bytes 0 BUFFER_SIZE_part) ''de''],
                   BuffersAllocated = 2, picks = []\<rparr>)
   \<and> view (written (written (make_bytes 0 BUFFER_SIZE_part) ''abc'') (''Oslo;5.2'' @ [NL]))
       = ''Oslo;5.2'' @ [NL]
   \<and> len (written (written (make_bytes 0 BUFFER_SIZE_part) ''abc'') (''Oslo;5.2'' @ [NL])) = 9
   \<and> (\<exists>cs p'. readInFile_part BUFFER_SIZE_part (Regular (''Oslo;5.2'' @ [NL]))
                  \<lparr>items = [written (make_bytes 0 BUFFER_SIZE_part) ''de'',
                            written (make_bytes 0 BUFFER_SIZE_part) ''abc''],
                    BuffersAllocated = 2, picks = [1]\<rparr>
                = Some (Closed cs p')
              \<and> list_all (\<lambda>c. cap c = BUFFER_SIZE_part) cs \<and> pool_ok BUFFER_SIZE_part p')"
proof -
  let ?F = "''Oslo;5.2'' @ [NL]"
  let ?x0 = "written (make_bytes 0 BUFFER_SIZE_part) ''de''"
  let ?x1 = "written (make_bytes 0 BUFFER_SIZE_part) ''abc''"
  let ?p = "\<lparr>items = [?x0, ?x1], BuffersAllocated = 2, picks = [1]\<rparr>"
  let ?r = "\<lparr>buffer = replicate BUFFER_SIZE_part (CHR 0x00), fragment = make_bytes 0 0, fragLength = 0\<rparr>"
  have pos: "0 < BUFFER_SIZE_part" by (simp add: BUFFER_SIZE_part_def)
  have cap0: "cap ?x0 = BUFFER_SIZE_part" "cap ?x1 = BUFFER_SIZE_part"
    by (simp_all add: written_def cap_def make_bytes_def BUFFER_SIZE_part_def)
  have capc: "cap (written (make_bytes 0 BUFFER_SIZE_part) ?F) = BUFFER_SIZE_part"
    by (simp add: written_def cap_def make_bytes_def BUFFER_SIZE_part_def)
  have ok: "pool_ok BUFFER_SIZE_part ?p" using cap0 by (simp add: pool_ok_def)
  have mem: "?x1 \<in> set [?x0, ?x1]" by simp
  have kl: "(1::nat) < length [?x0, ?x1]" by simp
  have jl: "length [?x0, ?x1] \<le> (2::nat)" by simp
  have rok: "reader_ok BUFFER_SIZE_part ?r" by (simp add: reader_ok_def make_bytes_def)
  have ne: "?F \<noteq> []" by simp
  have l3: "len ?x1 = 3" by (simp add: written_def)
  have tk: "take BUFFER_SIZE_part ?F = ?F" "drop BUFFER_SIZE_part ?F = []"
    by (simp_all add: BUFFER_SIZE_part_def)
  have cb: "cut_block ?F = ?F" by (simp add: cut_block_def)
  note inst = acquire_gives_full_capacity
         [where BUFFER_SIZE = BUFFER_SIZE_part and p = ?p and x = ?x1 and k = 1 and ks = "[]"
            and j = 2 and js = "[]" and chunk = "written (make_bytes 0 BUFFER_SIZE_part) ?F"
            and r = ?r and content = ?F]
  have g1: "fst (Get_part BUFFER_SIZE_part ?p) = ?x1"
    using inst kl by simp
  have s1: "snd (Get_part BUFFER_SIZE_part ?p)
              = \<lparr>items = [?x0], BuffersAllocated = 2, picks = []\<rparr>"
    by (simp add: Get_part_def pick_def)
  have g2: "fst (Get_main BUFFER_SIZE_part \<lparr>items = [?x0, ?x1], BuffersAllocated = 2, picks = [2]\<rparr>)
              = make_bytes 0 BUFFER_SIZE_part"
    using inst jl by simp
  from inst pos rok ne ok
  have it: "\<exists>r'. iter_part BUFFER_SIZE_part ?r (Regular ?F) ?p
                = Emitted (written (fst (Get_part BUFFER_SIZE_part ?p)) (cut_block (take BUFFER_SIZE_part ?F))) r'
                    (Regular (drop BUFFER_SIZE_part ?F)) (snd (Get_part BUFFER_SIZE_part ?p))"
    and v: "view (written (fst (Get_part BUFFER_SIZE_part ?p)) (cut_block (take BUFFER_SIZE_part ?F)))
              = cut_block (take BUFFER_SIZE_part ?F)"
    and l: "len (written (fst (Get_part BUFFER_SIZE_part ?p)) (cut_block (take BUFFER_SIZE_part ?F)))
              = length (cut_block (take BUFFER_SIZE_part ?F))"
    by blast+
  have it': "\<exists>r'. iter_part BUFFER_SIZE_part ?r (Regular ?F) ?p
                = Emitted (written ?x1 ?F) r' (Regular [])
                    \<lparr>items = [?x0], BuffersAllocated = 2, picks = []\<rparr>"
    using it by (simp only: tk cb g1 s1)
  have v': "view (written ?x1 ?F) = ?F"
    using v by (simp only: tk cb g1)
  have l': "len (written ?x1 ?F) = 9"
    using l by (simp only: tk cb g1) simp
  from inst pos ok
  have rd: "\<exists>cs p'. readInFile_part BUFFER_SIZE_part (Regular ?F) ?p = Some (Closed cs p')
              \<and> list_all (\<lambda>c. cap c = BUFFER_SIZE_part) cs \<and> pool_ok BUFFER_SIZE_part p'"
    by blast
  show ?thesis
    by (intro conjI ok mem kl jl capc pos rok ne g1 l3 g2 it' v' l' rd)
qed

end
